theory Spec2Isabelle
  imports Complex_Main
begin

section \<open>JavaScript values and the built-ins the evaluator relies on\<close>

text \<open>
  The evaluator (\<^verbatim>\<open>src/lib/evaluator.js\<close>) works on spreadsheet tables: arrays of rows, a row
  being an array of cells. A cell is a JavaScript primitive. Numbers are modelled by their exact
  rational value, with the two infinities and NaN beside them; \<open>-0\<close> is identified with \<open>0\<close>
  (every use the evaluator makes of a number -- \<^verbatim>\<open>Set\<close> and \<^verbatim>\<open>Map\<close> keys, property keys,
  truthiness, the sign of a difference -- treats the two alike). A decimal literal is given its
  exact value, overflowing to an infinity and underflowing to zero where a double does; inside
  that range the model does not round to 53 bits, so it coincides with the double on every
  literal of at most 15 significant digits that is zero or of a magnitude between \<open>10^-307\<close> and
  \<open>10^308\<close>, in particular on all identifiers and priorities a table holds. Strings are
  sequences of the code points U+0000 .. U+00FF. The functions of the evaluator read their
  arguments and local variables only, so each is modelled as a function of its arguments.
\<close>

datatype jsnum = NaN | PosInf | NegInf | Fin rat

datatype jsval = JUndefined | JNull | JBool bool | JNum jsnum | JStr string

subsection \<open>Strings\<close>

text \<open>White space and line terminators of ECMAScript below U+0100: what \<^verbatim>\<open>trim\<close> strips
  and what \<^verbatim>\<open>\s\<close> matches.\<close>

definition is_space :: "char \<Rightarrow> bool" where
  "is_space c = (of_char c \<in> {9, 10, 11, 12, 13, 32, 160 :: nat})"

definition js_trim :: "string \<Rightarrow> string" where
  "js_trim s = rev (dropWhile is_space (rev (dropWhile is_space s)))"

definition to_lower_char :: "char \<Rightarrow> char" where
  "to_lower_char c =
     (let n = (of_char c :: nat)
      in if (65 \<le> n \<and> n \<le> 90) \<or> (192 \<le> n \<and> n \<le> 222 \<and> n \<noteq> 215)
         then char_of (n + 32) else c)"

definition toLowerCase :: "string \<Rightarrow> string" where
  "toLowerCase s = map to_lower_char s"

text \<open>\<^verbatim>\<open>s.replace(/\s+/g, " ")\<close>: every maximal run of white space becomes one space. The flag
  says whether the previous character belonged to a run.\<close>

fun collapse_ws :: "bool \<Rightarrow> string \<Rightarrow> string" where
  "collapse_ws in_run [] = []"
| "collapse_ws in_run (c # cs) =
     (if is_space c then (if in_run then collapse_ws True cs else CHR '' '' # collapse_ws True cs)
      else c # collapse_ws False cs)"

text \<open>\<^verbatim>\<open>s.replace(/_/g, " ")\<close>.\<close>

definition underscores_to_spaces :: "string \<Rightarrow> string" where
  "underscores_to_spaces s = map (\<lambda>c. if c = CHR ''_'' then CHR '' '' else c) s"

subsection \<open>Number(v)\<close>

definition is_digit :: "char \<Rightarrow> bool" where
  "is_digit c = (48 \<le> (of_char c :: nat) \<and> (of_char c :: nat) \<le> 57)"

text \<open>The value of a digit in any radix up to 16; 16 for a character that is no digit.\<close>

definition digit_val :: "char \<Rightarrow> nat" where
  "digit_val c =
     (let n = (of_char c :: nat)
      in if 48 \<le> n \<and> n \<le> 57 then n - 48
         else if 97 \<le> n \<and> n \<le> 102 then n - 87
         else if 65 \<le> n \<and> n \<le> 70 then n - 55
         else 16)"

definition nat_of_digits :: "nat \<Rightarrow> string \<Rightarrow> nat" where
  "nat_of_digits b ds = foldl (\<lambda>acc c. acc * b + digit_val c) 0 ds"

text \<open>The range of a double: a value at or beyond \<open>2^1024 - 2^970\<close> rounds to an infinity,
  one of magnitude at most \<open>2^-1075\<close> rounds to zero.\<close>

definition round_range :: "rat \<Rightarrow> jsnum" where
  "round_range q =
     (if 2 ^ 1024 - 2 ^ 970 \<le> q then PosInf
      else if q \<le> - (2 ^ 1024 - 2 ^ 970) then NegInf
      else if \<bar>q\<bar> \<le> 1 / 2 ^ 1075 then Fin 0
      else Fin q)"

text \<open>\<^verbatim>\<open>0x..\<close>, \<^verbatim>\<open>0o..\<close>, \<^verbatim>\<open>0b..\<close>: the digits after the prefix.\<close>

definition radix_literal :: "nat \<Rightarrow> string \<Rightarrow> jsnum" where
  "radix_literal b ds =
     (if ds \<noteq> [] \<and> (\<forall>c \<in> set ds. digit_val c < b)
      then round_range (of_nat (nat_of_digits b ds)) else NaN)"

definition scale10 :: "rat \<Rightarrow> int \<Rightarrow> rat" where
  "scale10 q e = (if 0 \<le> e then q * 10 ^ nat e else q / 10 ^ nat (- e))"

text \<open>What follows the mantissa: nothing, or \<^verbatim>\<open>e\<close>/\<^verbatim>\<open>E\<close>, an optional sign and digits.\<close>

definition exponent_part :: "string \<Rightarrow> int option" where
  "exponent_part s =
     (case s of
        [] \<Rightarrow> Some 0
      | c # r \<Rightarrow>
          if c = CHR ''e'' \<or> c = CHR ''E'' then
            (let (neg, ds) =
                   (case r of
                      [] \<Rightarrow> (False, [])
                    | d # r' \<Rightarrow>
                        if d = CHR ''-'' then (True, r')
                        else if d = CHR ''+'' then (False, r')
                        else (False, r))
             in if ds \<noteq> [] \<and> (\<forall>d \<in> set ds. is_digit d)
                then Some (if neg then - int (nat_of_digits 10 ds) else int (nat_of_digits 10 ds))
                else None)
          else None)"

text \<open>\<^verbatim>\<open>digits\<close>, \<^verbatim>\<open>digits.digits\<close>, \<^verbatim>\<open>digits.\<close> or \<^verbatim>\<open>.digits\<close>, then the exponent part.\<close>

definition unsigned_decimal :: "string \<Rightarrow> rat option" where
  "unsigned_decimal s =
     (let ip = takeWhile is_digit s;
          r1 = dropWhile is_digit s;
          (fp, r2) =
            (case r1 of
               [] \<Rightarrow> ([], [])
             | c # r \<Rightarrow>
                 if c = CHR ''.'' then (takeWhile is_digit r, dropWhile is_digit r)
                 else ([], r1))
      in if ip = [] \<and> fp = [] then None
         else (case exponent_part r2 of
                 None \<Rightarrow> None
               | Some e \<Rightarrow>
                   Some (scale10 (of_nat (nat_of_digits 10 (ip @ fp))) (e - int (length fp)))))"

definition signed_decimal :: "string \<Rightarrow> jsnum" where
  "signed_decimal s =
     (let (neg, r) =
            (case s of
               [] \<Rightarrow> (False, [])
             | c # r' \<Rightarrow>
                 if c = CHR ''-'' then (True, r')
                 else if c = CHR ''+'' then (False, r')
                 else (False, s))
      in if r = ''Infinity'' then (if neg then NegInf else PosInf)
         else (case unsigned_decimal r of
                 None \<Rightarrow> NaN
               | Some q \<Rightarrow> round_range (if neg then - q else q)))"

text \<open>The conversion of a string to a number: the trimmed string is empty (zero), a radix
  literal, or a signed decimal literal; anything else is NaN.\<close>

definition string_to_number :: "string \<Rightarrow> jsnum" where
  "string_to_number s0 =
     (let s = js_trim s0
      in if s = [] then Fin 0
         else if take 2 s = ''0x'' \<or> take 2 s = ''0X'' then radix_literal 16 (drop 2 s)
         else if take 2 s = ''0o'' \<or> take 2 s = ''0O'' then radix_literal 8 (drop 2 s)
         else if take 2 s = ''0b'' \<or> take 2 s = ''0B'' then radix_literal 2 (drop 2 s)
         else signed_decimal s)"

fun js_Number :: "jsval \<Rightarrow> jsnum" where
  "js_Number JUndefined = NaN"
| "js_Number JNull = Fin 0"
| "js_Number (JBool b) = (if b then Fin 1 else Fin 0)"
| "js_Number (JNum n) = n"
| "js_Number (JStr s) = string_to_number s"

fun isFinite :: "jsnum \<Rightarrow> bool" where
  "isFinite (Fin q) = True"
| "isFinite n = False"

subsection \<open>String(v)\<close>

definition digit_char :: "nat \<Rightarrow> char" where
  "digit_char n = ''0123456789'' ! n"

fun digits_of :: "nat \<Rightarrow> string" where
  "digits_of n =
     (if n < 10 then [digit_char n] else digits_of (n div 10) @ [digit_char (n mod 10)])"

declare digits_of.simps [simp del]

text \<open>The number of decimal places of a positive rational. The decimal expansion of a double
  ends after at most 1074 places, which the fuel covers.\<close>

fun decimal_places :: "nat \<Rightarrow> rat \<Rightarrow> nat" where
  "decimal_places fuel q =
     (if fuel = 0 \<or> q = of_int \<lfloor>q\<rfloor> then 0
      else 1 + decimal_places (fuel - 1) (q * 10))"

declare decimal_places.simps [simp del]

text \<open>The number of zeros a natural number ends in.\<close>

fun trailing_zeros :: "nat \<Rightarrow> nat" where
  "trailing_zeros n =
     (if n \<noteq> 0 \<and> n mod 10 = 0 then 1 + trailing_zeros (n div 10) else 0)"

declare trailing_zeros.simps [simp del]

text \<open>\<^verbatim>\<open>Number::toString\<close> of ECMAScript on a positive value \<open>s \<times> 10^(n - k)\<close>, \<open>s\<close> having
  \<open>k\<close> digits and no trailing zero: plain digits up to \<open>10^21\<close>, a decimal point down to
  \<open>10^-6\<close>, the exponent form beyond.\<close>

definition positive_to_string :: "rat \<Rightarrow> string" where
  "positive_to_string q =
     (let m = decimal_places 1100 q;
          N = nat \<lfloor>q * 10 ^ m\<rfloor>;
          z = trailing_zeros N;
          ds = digits_of (N div 10 ^ z);
          k = int (length ds);
          n = k + int z - int m
      in if k \<le> n \<and> n \<le> 21 then ds @ replicate (nat (n - k)) CHR ''0''
         else if 0 < n \<and> n \<le> 21 then take (nat n) ds @ ''.'' @ drop (nat n) ds
         else if - 6 < n \<and> n \<le> 0 then ''0.'' @ replicate (nat (- n)) CHR ''0'' @ ds
         else (let e = n - 1;
                   ex = (if e < 0 then ''-'' else ''+'') @ digits_of (nat \<bar>e\<bar>)
               in if k = 1 then ds @ ''e'' @ ex
                  else take 1 ds @ ''.'' @ drop 1 ds @ ''e'' @ ex))"

fun number_to_string :: "jsnum \<Rightarrow> string" where
  "number_to_string NaN = ''NaN''"
| "number_to_string PosInf = ''Infinity''"
| "number_to_string NegInf = ''-Infinity''"
| "number_to_string (Fin q) =
     (if q = 0 then ''0''
      else if q < 0 then ''-'' @ positive_to_string (- q)
      else positive_to_string q)"

fun js_String :: "jsval \<Rightarrow> string" where
  "js_String JUndefined = ''undefined''"
| "js_String JNull = ''null''"
| "js_String (JBool b) = (if b then ''true'' else ''false'')"
| "js_String (JNum n) = number_to_string n"
| "js_String (JStr s) = s"

subsection \<open>Truthiness and the defaulting operators\<close>

fun truthy :: "jsval \<Rightarrow> bool" where
  "truthy JUndefined = False"
| "truthy JNull = False"
| "truthy (JBool b) = b"
| "truthy (JNum n) = (n \<noteq> NaN \<and> n \<noteq> Fin 0)"
| "truthy (JStr s) = (s \<noteq> [])"

text \<open>\<^verbatim>\<open>a || b\<close> and \<^verbatim>\<open>a ?? b\<close>.\<close>

definition js_or :: "jsval \<Rightarrow> jsval \<Rightarrow> jsval" where
  "js_or a b = (if truthy a then a else b)"

definition nullish :: "jsval \<Rightarrow> jsval \<Rightarrow> jsval" where
  "nullish a b = (if a = JUndefined \<or> a = JNull then b else a)"

subsection \<open>Arrays, sets, maps and objects\<close>

type_synonym row = "jsval list"
type_synonym table = "row list"

text \<open>\<^verbatim>\<open>r[i]\<close>: an index outside the array (also \<open>-1\<close>, what \<^verbatim>\<open>findCol\<close> returns for a
  missing column) and a hole of a sparse row read as \<^verbatim>\<open>undefined\<close>.\<close>

definition cell :: "row \<Rightarrow> int \<Rightarrow> jsval" where
  "cell r i = (if 0 \<le> i \<and> nat i < length r then r ! nat i else JUndefined)"

text \<open>\<^verbatim>\<open>Array.from(new Set(xs))\<close>: the distinct elements in the order of their first
  occurrence. Elements are compared by SameValueZero, under which NaN equals itself, as the
  constructor \<open>NaN\<close> does here.\<close>

definition set_add :: "'a list \<Rightarrow> 'a \<Rightarrow> 'a list" where
  "set_add acc x = (if x \<in> set acc then acc else acc @ [x])"

definition new_Set :: "'a list \<Rightarrow> 'a list" where
  "new_Set xs = foldl set_add [] xs"

text \<open>\<^verbatim>\<open>new Map(entries)\<close>, read by \<^verbatim>\<open>get\<close> and \<^verbatim>\<open>has\<close> only: a later entry replaces an
  earlier one with the same key.\<close>

definition new_Map :: "('k \<times> 'v) list \<Rightarrow> 'k \<Rightarrow> 'v option" where
  "new_Map entries = map_of (rev entries)"

text \<open>The objects the evaluator builds and reads (\<^verbatim>\<open>out\<close>, \<^verbatim>\<open>result\<close>, \<^verbatim>\<open>assignedTags\<close>,
  \<^verbatim>\<open>clauseEval\<close>) have numbers as property keys. A property key is the string of the number,
  and distinct numbers print as distinct strings, so such an object is modelled as the list of
  its properties keyed by the numbers themselves, in creation order. An object that is
  \<^verbatim>\<open>null\<close> or \<^verbatim>\<open>undefined\<close> is read by the evaluator as the empty object
  (\<^verbatim>\<open>assignedTags?.[..]\<close>, \<^verbatim>\<open>assignedTags || {}\<close>), and so is an absent array as the empty
  array (\<^verbatim>\<open>clausesArray || []\<close>, \<^verbatim>\<open>tagsArray?.length || 0\<close>).\<close>

type_synonym obj = "(jsnum \<times> jsval) list"

definition obj_get :: "obj \<Rightarrow> jsnum \<Rightarrow> jsval" where
  "obj_get ob k = (case map_of ob k of None \<Rightarrow> JUndefined | Some v \<Rightarrow> v)"

fun obj_set :: "jsnum \<Rightarrow> jsval \<Rightarrow> obj \<Rightarrow> obj" where
  "obj_set k v [] = [(k, v)]"
| "obj_set k v ((k', v') # ob) =
     (if k' = k then (k, v) # ob else (k', v') # obj_set k v ob)"

definition obj_values :: "obj \<Rightarrow> jsval list" where
  "obj_values ob = map snd ob"

text \<open>\<^verbatim>\<open>xs.sort(cmp)\<close>: a stable sort, in which \<open>b\<close> goes before \<open>a\<close> exactly when
  \<^verbatim>\<open>cmp(a, b)\<close> is positive (a NaN result counts as zero). ECMAScript fixes the result when
  the comparator is consistent, and leaves it to the implementation otherwise; the model is
  the stable insertion sort, which is that result for a consistent comparator.\<close>

fun positive :: "jsnum \<Rightarrow> bool" where
  "positive PosInf = True"
| "positive (Fin q) = (0 < q)"
| "positive n = False"

fun js_insert :: "('a \<Rightarrow> 'a \<Rightarrow> jsnum) \<Rightarrow> 'a \<Rightarrow> 'a list \<Rightarrow> 'a list" where
  "js_insert cmp x [] = [x]"
| "js_insert cmp x (y # ys) =
     (if positive (cmp x y) then y # js_insert cmp x ys else x # y # ys)"

definition js_sort :: "('a \<Rightarrow> 'a \<Rightarrow> jsnum) \<Rightarrow> 'a list \<Rightarrow> 'a list" where
  "js_sort cmp xs = foldr (js_insert cmp) xs []"

text \<open>\<^verbatim>\<open>a - b\<close> on numbers. The difference of two finite numbers is kept exact: the evaluator
  uses the sign and the truthiness of a difference only, and those are the same for the double.\<close>

fun js_sub :: "jsnum \<Rightarrow> jsnum \<Rightarrow> jsnum" where
  "js_sub NaN b = NaN"
| "js_sub a NaN = NaN"
| "js_sub PosInf PosInf = NaN"
| "js_sub NegInf NegInf = NaN"
| "js_sub PosInf b = PosInf"
| "js_sub NegInf b = NegInf"
| "js_sub (Fin a) PosInf = NegInf"
| "js_sub (Fin a) NegInf = PosInf"
| "js_sub (Fin a) (Fin b) = Fin (a - b)"

section \<open>The evaluator\<close>

subsection \<open>Small helpers\<close>

text \<open>\<^verbatim>\<open>String(cell).split(/[,|;]+/)\<close>: the pieces between the maximal runs of separators.
  \<open>cur\<close> is the piece being read, reversed; \<open>in_run\<close> says whether the previous character was
  a separator.\<close>

definition is_sep :: "char \<Rightarrow> bool" where
  "is_sep c = (c = CHR '','' \<or> c = CHR ''|'' \<or> c = CHR '';'')"

fun split_seps :: "bool \<Rightarrow> string \<Rightarrow> string \<Rightarrow> string list" where
  "split_seps in_run cur [] = [rev cur]"
| "split_seps in_run cur (c # cs) =
     (if is_sep c then (if in_run then split_seps True cur cs else rev cur # split_seps True [] cs)
      else split_seps False (c # cur) cs)"

definition parseList :: "jsval \<Rightarrow> string list" where
  "parseList c =
     (if c = JUndefined \<or> c = JNull then []
      else filter (\<lambda>s. s \<noteq> []) (map js_trim (split_seps False [] (js_String c))))"

definition canon :: "jsval \<Rightarrow> string" where
  "canon s =
     toLowerCase (underscores_to_spaces (collapse_ws False (js_trim (js_String (js_or s (JStr ''''))))))"

text \<open>\<^verbatim>\<open>findCol\<close> builds the regular expression \<^verbatim>\<open>^namePattern$\<close> with the flag \<^verbatim>\<open>i\<close>. Every
  pattern the evaluator passes is a sequence of letters and of \<^verbatim>\<open>\s*\<close>; a pattern is
  represented by that sequence. A letter matches a character of the same upper-case form.\<close>

datatype pat = Lit char | Spaces

definition ascii_upper :: "char \<Rightarrow> char" where
  "ascii_upper c =
     (let n = (of_char c :: nat) in if 97 \<le> n \<and> n \<le> 122 then char_of (n - 32) else c)"

fun rx_match :: "pat list \<Rightarrow> string \<Rightarrow> bool" where
  "rx_match [] s = (s = [])"
| "rx_match (Lit c # ps) [] = False"
| "rx_match (Lit c # ps) (x # xs) = (ascii_upper c = ascii_upper x \<and> rx_match ps xs)"
| "rx_match (Spaces # ps) [] = rx_match ps []"
| "rx_match (Spaces # ps) (x # xs) =
     (rx_match ps (x # xs) \<or> (is_space x \<and> rx_match (Spaces # ps) xs))"

text \<open>The pattern \<^verbatim>\<open>w1\s*w2\s*...\<close> of a list of words.\<close>

fun words :: "string list \<Rightarrow> pat list" where
  "words [] = []"
| "words [w] = map Lit w"
| "words (w # ws) = map Lit w @ Spaces # words ws"

fun findCol_from :: "nat \<Rightarrow> jsval list \<Rightarrow> pat list \<Rightarrow> int" where
  "findCol_from i [] namePattern = - 1"
| "findCol_from i (h # hs) namePattern =
     (if rx_match namePattern
           (js_trim (collapse_ws False (underscores_to_spaces (js_String (nullish h (JStr ''''))))))
      then int i else findCol_from (Suc i) hs namePattern)"

definition findCol :: "jsval list \<Rightarrow> pat list \<Rightarrow> int" where
  "findCol headers namePattern = findCol_from 0 headers namePattern"

definition toNum :: "jsval \<Rightarrow> jsval" where
  "toNum v = (let n = js_Number v in if isFinite n then JNum n else JNull)"

definition uniqNums :: "jsval list \<Rightarrow> jsnum list" where
  "uniqNums arr = filter isFinite (new_Set (map js_Number arr))"

text \<open>The columns the evaluator looks up.\<close>

definition col_tag_id :: "pat list" where "col_tag_id = words [''tag'', ''id'']"
definition col_tag_category :: "pat list" where "col_tag_category = words [''tag'', ''category'']"
definition col_priority :: "pat list" where "col_priority = words [''priority'']"
definition col_question :: "pat list" where "col_question = words [''question'']"
definition col_entry_type :: "pat list" where "col_entry_type = words [''entry'', ''type'']"
definition col_entry_category :: "pat list" where
  "col_entry_category = words [''entry'', ''category'']"
definition col_helper_text :: "pat list" where "col_helper_text = words [''helper'', ''text'']"
definition col_name :: "pat list" where "col_name = words [''name'']"
definition col_variable_array :: "pat list" where
  "col_variable_array = words [''variable'', ''array'']"
definition col_object_name :: "pat list" where "col_object_name = words [''object'', ''name'']"
definition col_variable_type :: "pat list" where
  "col_variable_type = words [''variable'', ''type'']"
definition col_associated_clause_array :: "pat list" where
  "col_associated_clause_array = words [''associated'', ''clause'', ''array'']"
definition col_pc_id :: "pat list" where "col_pc_id = words [''pc'', ''id'']"
definition col_tags_array :: "pat list" where "col_tags_array = words [''tags'', ''array'']"
definition col_include_if_list :: "pat list" where
  "col_include_if_list = words [''include'', ''if'', ''list'']"
definition col_exclude_if_list :: "pat list" where
  "col_exclude_if_list = words [''exclude'', ''if'', ''list'']"

text \<open>\<^verbatim>\<open>findCol(head, p) === -1 ? 0 : findCol(head, p)\<close>.\<close>

definition findCol_or_first :: "jsval list \<Rightarrow> pat list \<Rightarrow> int" where
  "findCol_or_first head p = (if findCol head p = - 1 then 0 else findCol head p)"

subsection \<open>Common table helpers\<close>

text \<open>A table or an id list that is \<^verbatim>\<open>null\<close> or \<^verbatim>\<open>undefined\<close> is \<open>None\<close>.\<close>

definition filterTableByIds :: "table option \<Rightarrow> jsval list option \<Rightarrow> table" where
  "filterTableByIds aoa ids =
     (case aoa of
        None \<Rightarrow> []
      | Some [] \<Rightarrow> []
      | Some (head # rows) \<Rightarrow>
          (case ids of
             None \<Rightarrow> [head]
           | Some [] \<Rightarrow> [head]
           | Some (i # is) \<Rightarrow>
               (let s = new_Set (map js_Number (i # is))
                in head # filter (\<lambda>r. js_Number (cell r 0) \<in> set s) rows)))"

record taginfo =
  Tag_ID :: jsval
  Tag_Category :: jsval
  Priority :: jsval
  Question :: jsval
  Entry_Type :: jsval
  Entry_Category :: jsval
  Helper_Text :: jsval

definition shapeTagsInfo :: "table option \<Rightarrow> taginfo list" where
  "shapeTagsInfo tagsAoA =
     (case tagsAoA of
        None \<Rightarrow> []
      | Some [] \<Rightarrow> []
      | Some (head # rows) \<Rightarrow>
          (let iId = findCol_or_first head col_tag_id;
               iCat = findCol head col_tag_category;
               iPri = findCol head col_priority;
               iQue = findCol head col_question;
               iType = findCol head col_entry_type;
               iEC = findCol head col_entry_category;
               iHelp = findCol head col_helper_text
           in map (\<lambda>r.
                \<lparr> Tag_ID = toNum (cell r iId),
                  Tag_Category = (if iCat \<noteq> - 1 then cell r iCat else JStr ''''),
                  Priority = (if iPri \<noteq> - 1
                              then JNum (js_Number (js_or (cell r iPri) (JNum PosInf)))
                              else JNum PosInf),
                  Question = (if iQue \<noteq> - 1 then cell r iQue else JStr ''''),
                  Entry_Type = (if iType \<noteq> - 1 then cell r iType else JStr ''Text''),
                  Entry_Category = (if iEC \<noteq> - 1 then cell r iEC else JStr ''''),
                  Helper_Text = (if iHelp \<noteq> - 1 then cell r iHelp else JStr '''') \<rparr>) rows))"

text \<open>\<^verbatim>\<open>dedupeByTagId\<close>: the loop over \<open>arr\<close>, with the set \<open>seen\<close> and the array \<open>out\<close>.\<close>

fun dedupe_loop :: "jsnum list \<Rightarrow> taginfo list \<Rightarrow> taginfo list \<Rightarrow> taginfo list" where
  "dedupe_loop seen out [] = out"
| "dedupe_loop seen out (t # ts) =
     (let id = js_Number (Tag_ID t)
      in if \<not> isFinite id then dedupe_loop seen out ts
         else if id \<in> set seen then dedupe_loop seen out ts
         else dedupe_loop (seen @ [id]) (out @ [t]) ts)"

definition dedupeByTagId :: "taginfo list \<Rightarrow> taginfo list" where
  "dedupeByTagId arr = dedupe_loop [] [] arr"

subsection \<open>Resolver: template, clauses, tags\<close>

record resolved =
  tagsArray :: "jsnum list"
  clausesArray :: "jsnum list"
  debug :: "string list"

text \<open>The rows of the Variable table that a variable name selects.\<close>

definition var_matches :: "row list \<Rightarrow> int \<Rightarrow> int \<Rightarrow> string \<Rightarrow> row list" where
  "var_matches vRows iObj iVType name =
     filter (\<lambda>r. canon (cell r iObj) = canon (JStr name) \<and> canon (cell r iVType) = ''clause'')
       vRows"

text \<open>The loop over \<open>varList\<close>, with the arrays \<open>clauseIds\<close> and \<open>missingVars\<close> it fills.\<close>

fun collect_vars ::
  "row list \<Rightarrow> int \<Rightarrow> int \<Rightarrow> int \<Rightarrow> string list \<Rightarrow> jsnum list \<times> string list
     \<Rightarrow> jsnum list \<times> string list" where
  "collect_vars vRows iObj iVType iAssoc [] acc = acc"
| "collect_vars vRows iObj iVType iAssoc (name # names) (clauseIds, missingVars) =
     (let matches = var_matches vRows iObj iVType name
      in if matches = []
         then collect_vars vRows iObj iVType iAssoc names (clauseIds, missingVars @ [name])
         else collect_vars vRows iObj iVType iAssoc names
                (clauseIds
                   @ concat (map (\<lambda>r. uniqNums (map JStr (parseList (cell r iAssoc)))) matches),
                 missingVars))"

text \<open>The loop over \<open>clausesArray\<close> that fills \<open>tags\<close>.\<close>

fun collect_tags :: "(jsnum \<Rightarrow> row option) \<Rightarrow> int \<Rightarrow> jsnum list \<Rightarrow> jsnum list \<Rightarrow> jsnum list"
  where
  "collect_tags clauseMap iTags [] tags = tags"
| "collect_tags clauseMap iTags (pc # pcs) tags =
     (case clauseMap pc of
        None \<Rightarrow> collect_tags clauseMap iTags pcs tags
      | Some row \<Rightarrow>
          collect_tags clauseMap iTags pcs
            (tags @ uniqNums (map JStr (parseList (cell row iTags)))))"

text \<open>\<^verbatim>\<open>xs.join(", ")\<close>.\<close>

fun join_comma :: "string list \<Rightarrow> string" where
  "join_comma [] = []"
| "join_comma [x] = x"
| "join_comma (x # xs) = x @ '', '' @ join_comma xs"

definition nat_to_string :: "nat \<Rightarrow> string" where
  "nat_to_string n = number_to_string (Fin (of_nat n))"

definition getTagsAndClausesByTemplateName ::
  "table option \<Rightarrow> table option \<Rightarrow> table option \<Rightarrow> jsval \<Rightarrow> resolved" where
  "getTagsAndClausesByTemplateName templatesTable variablesTable clausesTable templateName =
     (case (templatesTable, variablesTable, clausesTable) of
        (Some (tHead # tRows), Some (vHead # vRows), Some (cHead # cRows)) \<Rightarrow>
          (let iTName = findCol tHead col_name;
               iTVar = findCol tHead col_variable_array
           in case find (\<lambda>r. canon (cell r iTName) = canon templateName) tRows of
                None \<Rightarrow>
                  \<lparr> tagsArray = [], clausesArray = [],
                    debug = [''Template not found: '' @ js_String templateName] \<rparr>
              | Some tRow \<Rightarrow>
                  (let varList = parseList (cell tRow iTVar)
                   in if varList = []
                      then \<lparr> tagsArray = [], clausesArray = [],
                             debug = [''Template Variable_Array is empty.''] \<rparr>
                      else
                        (let iObj = findCol vHead col_object_name;
                             iVType = findCol vHead col_variable_type;
                             iAssoc = findCol vHead col_associated_clause_array;
                             (clauseIds, missingVars) =
                               collect_vars vRows iObj iVType iAssoc varList ([], []);
                             debug1 =
                               (if missingVars \<noteq> []
                                then [''Variables not found (or not type '' @ [CHR 0x22]
                                        @ ''Clause'' @ [CHR 0x22] @ ''): ''
                                        @ join_comma missingVars]
                                else []);
                             clausesArray = js_sort js_sub (uniqNums (map JNum clauseIds));
                             debug2 =
                               debug1 @ [''Resolved '' @ nat_to_string (length clausesArray)
                                  @ '' clause IDs from '' @ nat_to_string (length varList)
                                  @ '' variable names.''];
                             iPc = findCol_or_first cHead col_pc_id;
                             iTags = findCol cHead col_tags_array;
                             clauseMap = new_Map (map (\<lambda>r. (js_Number (cell r iPc), r)) cRows);
                             tags = collect_tags clauseMap iTags clausesArray [];
                             tagsArray = js_sort js_sub (uniqNums (map JNum tags));
                             debug3 =
                               debug2 @ [''Collected '' @ nat_to_string (length tagsArray)
                                  @ '' unique tag IDs from clauses.'']
                         in \<lparr> tagsArray = tagsArray, clausesArray = clausesArray,
                              debug = debug3 \<rparr>)))
      | _ \<Rightarrow>
          \<lparr> tagsArray = [], clausesArray = [], debug = [''One or more tables are empty.''] \<rparr>)"

subsection \<open>Evaluation: tags, clauses\<close>

text \<open>The answer mapping is an object whose keys are arbitrary strings: it is given by its
  entries, in the order in which \<^verbatim>\<open>Object.entries\<close> lists them.\<close>

definition tag_truth :: "row \<Rightarrow> int \<Rightarrow> int \<Rightarrow> jsval \<Rightarrow> jsval" where
  "tag_truth row iECat iType v =
     (let entryCat = canon (cell row iECat);
          entryType = canon (cell row iType)
      in if entryCat = ''bool''
         then (let val = canon v
               in if val = ''yes'' then JNum (Fin 1)
                  else if val = ''no'' then JNum (Fin (- 1))
                  else JNum (Fin 0))
         else if entryType = ''no display''
         then (if js_trim (js_String (nullish v (JStr ''''))) \<noteq> [] then JNum (Fin 1)
               else JNum (Fin 0))
         else (if js_trim (js_String (nullish v (JStr ''''))) \<noteq> [] then JNum (Fin 1)
               else JNum (Fin 0)))"

fun tags_loop ::
  "(jsnum \<Rightarrow> row option) \<Rightarrow> int \<Rightarrow> int \<Rightarrow> (string \<times> jsval) list \<Rightarrow> obj \<Rightarrow> obj" where
  "tags_loop rowById iECat iType [] out = out"
| "tags_loop rowById iECat iType ((k, v) # entries) out =
     (let id = js_Number (JStr k)
      in case rowById id of
           None \<Rightarrow> tags_loop rowById iECat iType entries out
         | Some row \<Rightarrow>
             tags_loop rowById iECat iType entries (obj_set id (tag_truth row iECat iType v) out))"

definition evaluateTagsBuildMode :: "(string \<times> jsval) list \<Rightarrow> table option \<Rightarrow> obj" where
  "evaluateTagsBuildMode answeredTags filteredTagsTable =
     (case filteredTagsTable of
        None \<Rightarrow> []
      | Some [] \<Rightarrow> []
      | Some (head # rows) \<Rightarrow>
          (let iId = findCol_or_first head col_tag_id;
               iECat = findCol head col_entry_category;
               iType = findCol head col_entry_type;
               rowById = new_Map (map (\<lambda>r. (js_Number (cell r iId), r)) rows)
           in tags_loop rowById iECat iType answeredTags []))"

text \<open>The inner function \<^verbatim>\<open>val\<close> of \<^verbatim>\<open>evaluateClauses\<close>.\<close>

definition val :: "obj \<Rightarrow> jsnum \<Rightarrow> jsval" where
  "val assignedTags tagId =
     (let v = obj_get assignedTags tagId
      in if v = JNum (Fin 1) then JNum (Fin 1)
         else if v = JNum (Fin (- 1)) then JNum (Fin (- 1))
         else JNum (Fin 0))"

text \<open>The body of the loop over the clause rows: the verdict of one row.\<close>

definition clause_verdict :: "obj \<Rightarrow> jsnum list \<Rightarrow> jsnum list \<Rightarrow> jsval" where
  "clause_verdict assignedTags inc exc =
     (if list_ex (\<lambda>t. val assignedTags t = JNum (Fin (- 1))) inc then JNum (Fin (- 1))
      else if list_ex (\<lambda>t. val assignedTags t = JNum (Fin 1)) exc then JNum (Fin (- 1))
      else (let incAllOne =
                  (if length inc = 0 then True
                   else list_all (\<lambda>t. val assignedTags t = JNum (Fin 1)) inc);
                excAllNeg =
                  (if length exc = 0 then True
                   else list_all (\<lambda>t. val assignedTags t = JNum (Fin (- 1))) exc)
            in if incAllOne \<and> excAllNeg then JNum (Fin 1) else JNum (Fin 0)))"

fun clauses_loop :: "obj \<Rightarrow> int \<Rightarrow> int \<Rightarrow> int \<Rightarrow> row list \<Rightarrow> obj \<Rightarrow> obj" where
  "clauses_loop assignedTags iPc iInc iExc [] result = result"
| "clauses_loop assignedTags iPc iInc iExc (r # rs) result =
     (let pc = js_Number (cell r iPc);
          inc = uniqNums (map JStr (parseList (cell r iInc)));
          exc = uniqNums (map JStr (parseList (cell r iExc)))
      in clauses_loop assignedTags iPc iInc iExc rs
           (obj_set pc (clause_verdict assignedTags inc exc) result))"

definition evaluateClauses :: "obj \<Rightarrow> table option \<Rightarrow> obj" where
  "evaluateClauses assignedTags filteredClausesTable =
     (case filteredClausesTable of
        None \<Rightarrow> []
      | Some [] \<Rightarrow> []
      | Some (head # rows) \<Rightarrow>
          (let iPc = findCol_or_first head col_pc_id;
               iInc = findCol head col_include_if_list;
               iExc = findCol head col_exclude_if_list
           in clauses_loop assignedTags iPc iInc iExc rows []))"

text \<open>The verdict the loop body gives a row, from its include and exclude cells.\<close>

definition row_verdict :: "obj \<Rightarrow> int \<Rightarrow> int \<Rightarrow> row \<Rightarrow> jsval" where
  "row_verdict a iInc iExc r =
     clause_verdict a (uniqNums (map JStr (parseList (cell r iInc))))
       (uniqNums (map JStr (parseList (cell r iExc))))"

subsection \<open>Next questions\<close>

record next_questions =
  status :: string
  nextQuestions :: "taginfo list"
  ratioCompletedTags :: rat

text \<open>The ratio is the quotient of two array lengths; it is kept as the exact rational, of
  which the double the function returns is the rounding. The parameters \<^verbatim>\<open>clausesArray\<close> and
  \<^verbatim>\<open>tagsArray\<close> of the source are written \<open>clausesArr\<close> and \<open>tagsArr\<close>, the full names being
  the fields of the resolver's result.\<close>

definition unresolvedClauses :: "obj \<Rightarrow> jsnum list \<Rightarrow> jsnum list" where
  "unresolvedClauses clauseEval clausesArr =
     filter (\<lambda>pc. obj_get clauseEval pc = JNum (Fin 0)) clausesArr"

text \<open>The loop over the unresolved clauses that fills \<open>unresolvedTagIds\<close>.\<close>

fun unresolved_loop ::
  "(jsnum \<Rightarrow> row option) \<Rightarrow> int \<Rightarrow> jsnum list \<Rightarrow> jsnum list \<Rightarrow> jsnum list" where
  "unresolved_loop rowsByPc iTags [] unresolvedTagIds = unresolvedTagIds"
| "unresolved_loop rowsByPc iTags (pc # pcs) unresolvedTagIds =
     (case rowsByPc pc of
        None \<Rightarrow> unresolved_loop rowsByPc iTags pcs unresolvedTagIds
      | Some row \<Rightarrow>
          unresolved_loop rowsByPc iTags pcs
            (unresolvedTagIds @ uniqNums (map JStr (parseList (cell row iTags)))))"

definition pendingTagIds :: "obj \<Rightarrow> row \<Rightarrow> row list \<Rightarrow> jsnum list \<Rightarrow> jsnum list" where
  "pendingTagIds assignedTags head rows unresolved =
     (let iPc = findCol_or_first head col_pc_id;
          iTags = findCol head col_tags_array;
          rowsByPc = new_Map (map (\<lambda>r. (js_Number (cell r iPc), r)) rows);
          unresolvedTagIds = unresolved_loop rowsByPc iTags unresolved []
      in filter (\<lambda>tid. let v = obj_get assignedTags tid in v = JUndefined \<or> v = JNum (Fin 0))
           (uniqNums (map JNum unresolvedTagIds)))"

definition synthetic_question :: "jsnum \<Rightarrow> taginfo" where
  "synthetic_question tid =
     \<lparr> Tag_ID = JNum tid,
       Tag_Category = JStr '''',
       Priority = JNum PosInf,
       Question = JStr (''Answer for Tag '' @ number_to_string tid),
       Entry_Type = JStr ''Text'',
       Entry_Category = JStr '''',
       Helper_Text = JStr '''' \<rparr>"

text \<open>The loop over \<open>pendingTagIds\<close> that fills \<open>nextInfo\<close>.\<close>

definition nextInfo :: "(jsnum \<Rightarrow> taginfo option) \<Rightarrow> jsnum list \<Rightarrow> taginfo list" where
  "nextInfo infoById pending =
     map (\<lambda>id. case infoById id of Some t \<Rightarrow> t | None \<Rightarrow> synthetic_question id) pending"

text \<open>The comparator of the final sort:
  \<^verbatim>\<open>(a.Priority ?? Infinity) - (b.Priority ?? Infinity) || a.Tag_ID - b.Tag_ID\<close>.\<close>

definition question_cmp :: "taginfo \<Rightarrow> taginfo \<Rightarrow> jsnum" where
  "question_cmp a b =
     (let d = js_sub (js_Number (nullish (Priority a) (JNum PosInf)))
                     (js_Number (nullish (Priority b) (JNum PosInf)))
      in if truthy (JNum d) then d
         else js_sub (js_Number (Tag_ID a)) (js_Number (Tag_ID b)))"

definition returnNextTagQuestions ::
  "obj \<Rightarrow> table option \<Rightarrow> jsnum list \<Rightarrow> obj \<Rightarrow> jsnum list \<Rightarrow> taginfo list \<Rightarrow> next_questions"
  where
  "returnNextTagQuestions clauseEval filteredClausesTable clausesArr assignedTags tagsArr
       tagsInfo =
     (let totalTags = length tagsArr;
          assignedCount =
            length (filter (\<lambda>v. v = JNum (Fin 1) \<or> v = JNum (Fin (- 1))) (obj_values assignedTags));
          ratio = (if 0 < totalTags then of_nat assignedCount / of_nat totalTags else 0);
          unresolved = unresolvedClauses clauseEval clausesArr
      in if length unresolved = 0
         then \<lparr> status = ''done'', nextQuestions = [], ratioCompletedTags = ratio \<rparr>
         else
           (case filteredClausesTable of
              None \<Rightarrow> \<lparr> status = ''ask'', nextQuestions = [], ratioCompletedTags = ratio \<rparr>
            | Some [] \<Rightarrow> \<lparr> status = ''ask'', nextQuestions = [], ratioCompletedTags = ratio \<rparr>
            | Some (head # rows) \<Rightarrow>
                (let pending = pendingTagIds assignedTags head rows unresolved
                 in if length pending = 0
                    then \<lparr> status = ''done'', nextQuestions = [], ratioCompletedTags = ratio \<rparr>
                    else
                      (let infoById = new_Map (map (\<lambda>t. (js_Number (Tag_ID t), t)) tagsInfo)
                       in \<lparr> status = ''ask'',
                            nextQuestions =
                              js_sort question_cmp (dedupeByTagId (nextInfo infoById pending)),
                            ratioCompletedTags = ratio \<rparr>))))"

section \<open>The claims in the words of the specification\<close>

text \<open>A tag-truth mapping: every entry is 1, -1 or 0.\<close>

definition tri_state :: "obj \<Rightarrow> bool" where
  "tri_state m =
     (\<forall>(k, v) \<in> set m. v = JNum (Fin 1) \<or> v = JNum (Fin (- 1)) \<or> v = JNum (Fin 0))"

text \<open>The value of a tag and the four rules of the clause evaluator, as the specification
  words them.\<close>

definition spec_value :: "obj \<Rightarrow> jsnum \<Rightarrow> jsval" where
  "spec_value m t = (case map_of m t of None \<Rightarrow> JNum (Fin 0) | Some v \<Rightarrow> v)"

definition spec_verdict :: "obj \<Rightarrow> jsnum list \<Rightarrow> jsnum list \<Rightarrow> jsval" where
  "spec_verdict m inc exc =
     (if \<exists>t \<in> set inc. spec_value m t = JNum (Fin (- 1)) then JNum (Fin (- 1))
      else if \<exists>t \<in> set exc. spec_value m t = JNum (Fin 1) then JNum (Fin (- 1))
      else if (\<forall>t \<in> set inc. spec_value m t = JNum (Fin 1))
              \<and> (\<forall>t \<in> set exc. spec_value m t = JNum (Fin (- 1))) then JNum (Fin 1)
      else JNum (Fin 0))"

text \<open>The second of two tag-truth mappings differs from the first only by tags whose value was
  0 (or that had no entry) and is now 1.\<close>

definition more_positive_answers :: "obj \<Rightarrow> obj \<Rightarrow> bool" where
  "more_positive_answers a a' =
     (\<forall>t. val a' t = val a t \<or> (val a t = JNum (Fin 0) \<and> val a' t = JNum (Fin 1)))"

text \<open>The completion ratio as the specification defines it: the tags of the universe whose
  truth value is 1 or -1, over the size of the universe.\<close>

definition spec_completionRatio :: "obj \<Rightarrow> jsnum list \<Rightarrow> rat" where
  "spec_completionRatio assignedTags tagsArr =
     (if tagsArr = [] then 0
      else of_nat (length (filter (\<lambda>t. obj_get assignedTags t = JNum (Fin 1)
                                       \<or> obj_get assignedTags t = JNum (Fin (- 1))) tagsArr))
           / of_nat (length tagsArr))"

text \<open>The tags of a mapping that are decided: their truth value is 1 or -1.\<close>

definition decided_tags :: "obj \<Rightarrow> jsnum set" where
  "decided_tags assignedTags =
     {t. obj_get assignedTags t = JNum (Fin 1) \<or> obj_get assignedTags t = JNum (Fin (- 1))}"

text \<open>The order of the questions: by priority ascending, a missing priority (\<^verbatim>\<open>null\<close> or
  \<^verbatim>\<open>undefined\<close>) counting as infinity, then by tag identifier ascending. \<open>num_less\<close> is the
  order of the numbers other than NaN.\<close>

definition priority_of :: "taginfo \<Rightarrow> jsnum" where
  "priority_of t = js_Number (nullish (Priority t) (JNum PosInf))"

definition tag_number :: "taginfo \<Rightarrow> jsnum" where
  "tag_number t = js_Number (Tag_ID t)"

fun num_less :: "jsnum \<Rightarrow> jsnum \<Rightarrow> bool" where
  "num_less NegInf (Fin b) = True"
| "num_less NegInf PosInf = True"
| "num_less (Fin a) (Fin b) = (a < b)"
| "num_less (Fin a) PosInf = True"
| "num_less a b = False"

definition question_before :: "taginfo \<Rightarrow> taginfo \<Rightarrow> bool" where
  "question_before a b =
     (num_less (priority_of a) (priority_of b)
      \<or> (priority_of a = priority_of b \<and> num_less (tag_number a) (tag_number b)))"

text \<open>The pending tags: the numeric identifiers in the Tags_Array of a clause row whose PC_ID
  is unresolved, with a truth value that is missing or 0.\<close>

definition spec_pending :: "obj \<Rightarrow> row \<Rightarrow> row list \<Rightarrow> jsnum list \<Rightarrow> jsnum set" where
  "spec_pending assignedTags head rows unresolved =
     {t. isFinite t
         \<and> (\<exists>row \<in> set rows.
               js_Number (cell row (findCol_or_first head col_pc_id)) \<in> set unresolved
               \<and> t \<in> js_Number ` JStr ` set (parseList (cell row (findCol head col_tags_array))))
         \<and> (obj_get assignedTags t = JUndefined \<or> obj_get assignedTags t = JNum (Fin 0))}"

text \<open>A template name is present in the Template table when some data row has its canonical
  name.\<close>

definition template_present :: "table option \<Rightarrow> jsval \<Rightarrow> bool" where
  "template_present templatesTable templateName =
     (case templatesTable of
        Some (tHead # tRows) \<Rightarrow>
          list_ex (\<lambda>r. canon (cell r (findCol tHead col_name)) = canon templateName) tRows
      | _ \<Rightarrow> False)"

text \<open>The clause identifiers of a template: the numeric identifiers in the
  Associated_Clause_Array of the Variable rows whose Object_Name canonically matches a name of
  the template's Variable_Array and whose Variable_Type is canonically \<open>clause\<close>. The tag
  identifiers of a set of clauses: the numeric identifiers in the Tags_Array of the Clause
  rows whose PC_ID is in the set.\<close>

definition spec_clause_ids :: "row \<Rightarrow> row list \<Rightarrow> string list \<Rightarrow> jsnum set" where
  "spec_clause_ids vHead vRows varList =
     {n. isFinite n
         \<and> (\<exists>r \<in> set vRows.
               (\<exists>name \<in> set varList.
                  canon (cell r (findCol vHead col_object_name)) = canon (JStr name))
               \<and> canon (cell r (findCol vHead col_variable_type)) = ''clause''
               \<and> n \<in> js_Number ` JStr
                     ` set (parseList (cell r (findCol vHead col_associated_clause_array))))}"

definition spec_tag_ids :: "row \<Rightarrow> row list \<Rightarrow> jsnum list \<Rightarrow> jsnum set" where
  "spec_tag_ids cHead cRows clauseIds =
     {t. isFinite t
         \<and> (\<exists>row \<in> set cRows.
               js_Number (cell row (findCol_or_first cHead col_pc_id)) \<in> set clauseIds
               \<and> t \<in> js_Number ` JStr ` set (parseList (cell row (findCol cHead col_tags_array))))}"

section \<open>Example tables\<close>

text \<open>A Clause table with four clauses (the second row holds numeric cells, as a spreadsheet
  gives them), and tag-truth mappings over it.\<close>

definition clause_head :: row where
  "clause_head =
     [JStr ''PC_ID'', JStr ''Include_If_List'', JStr ''Exclude_If_List'', JStr ''Tags_Array'']"

definition clause_rows :: "row list" where
  "clause_rows =
     [[JStr ''1'', JStr ''10'', JStr '''', JStr ''10''],
      [JNum (Fin 2), JUndefined, JNum (Fin 20), JNum (Fin 20)],
      [JStr ''3'', JStr '''', JStr '''', JStr ''''],
      [JStr ''4'', JStr ''10, 99'', JStr ''20'', JStr ''10,20,99'']]"

definition truth_yes10_no20 :: obj where
  "truth_yes10_no20 = [(Fin 10, JNum (Fin 1)), (Fin 20, JNum (Fin (- 1)))]"

definition truth_yes20 :: obj where
  "truth_yes20 = [(Fin 20, JNum (Fin 1))]"

definition truth_yes20_yes10 :: obj where
  "truth_yes20_yes10 = [(Fin 20, JNum (Fin 1)), (Fin 10, JNum (Fin 1))]"

text \<open>A Tag table: a boolean tag with a numeric identifier cell, a boolean tag whose priority
  cell is the number 0, a tag that is not displayed and has an empty priority cell, and a text
  tag. An answer mapping over it, as \<^verbatim>\<open>Object.entries\<close> lists it.\<close>

definition tag_head :: row where
  "tag_head =
     [JStr ''Tag_ID'', JStr ''Priority'', JStr ''Question'', JStr ''Entry_Type'',
      JStr ''Entry_Category'']"

definition tag_rows :: "row list" where
  "tag_rows =
     [[JNum (Fin 10), JNum (Fin 2), JStr ''Is it leased?'', JStr ''Radio'', JStr ''Bool''],
      [JStr ''20'', JNum (Fin 0), JStr ''Any pets?'', JStr ''Radio'', JStr ''bool''],
      [JStr ''30'', JStr '''', JStr ''Tenant'', JStr ''No Display'', JStr ''Name''],
      [JStr ''40'', JNum (Fin 1), JStr ''Term'', JStr ''Text'', JStr ''Text'']]"

definition answers :: "(string \<times> jsval) list" where
  "answers = [(''10'', JStr ''Yes''), (''20'', JStr '' no ''), (''30'', JStr ''  ''),
              (''40'', JStr ''5 years''), (''77'', JStr ''Yes'')]"

text \<open>Scenario A of the specification: the template \<open>Lease\<close> names the variables \<open>Tenant\<close>
  and \<open>Landlord\<close>, of type \<open>Clause\<close>, with the clause arrays \<open>1,2\<close> and \<open>2,3\<close>.\<close>

definition template_head :: row where
  "template_head = [JStr ''Name'', JStr ''Variable_Array'']"

definition template_rows :: "row list" where
  "template_rows = [[JStr ''Lease'', JStr ''Tenant, Landlord'']]"

definition variable_head :: row where
  "variable_head =
     [JStr ''Object_Name'', JStr ''Variable_Type'', JStr ''Associated_Clause_Array'']"

definition variable_rows :: "row list" where
  "variable_rows =
     [[JStr ''Tenant'', JStr ''Clause'', JStr ''1,2''],
      [JStr ''Landlord'', JStr ''Clause'', JStr ''2,3'']]"

text \<open>Verdicts that leave the clauses 1 and 4 unresolved, a mapping that decides tag 20 only,
  and a tag catalog in which tag 99 has a higher priority (a smaller number) than tag 10.\<close>

definition verdicts_1_4_open :: obj where
  "verdicts_1_4_open =
     [(Fin 1, JNum (Fin 0)), (Fin 2, JNum (Fin 1)), (Fin 3, JNum (Fin 1)), (Fin 4, JNum (Fin 0))]"

definition truth_no20 :: obj where
  "truth_no20 = [(Fin 20, JNum (Fin (- 1)))]"

definition tag_catalog :: "taginfo list" where
  "tag_catalog =
     [\<lparr> Tag_ID = JNum (Fin 10), Tag_Category = JStr '''', Priority = JNum (Fin 5),
        Question = JStr ''Is it leased?'', Entry_Type = JStr ''Radio'',
        Entry_Category = JStr ''Bool'', Helper_Text = JStr '''' \<rparr>,
      \<lparr> Tag_ID = JNum (Fin 20), Tag_Category = JStr '''', Priority = JNum (Fin 3),
        Question = JStr ''Any pets?'', Entry_Type = JStr ''Radio'',
        Entry_Category = JStr ''Bool'', Helper_Text = JStr '''' \<rparr>,
      \<lparr> Tag_ID = JNum (Fin 99), Tag_Category = JStr '''', Priority = JNum (Fin 1),
        Question = JStr ''Term'', Entry_Type = JStr ''Text'',
        Entry_Category = JStr '''', Helper_Text = JStr '''' \<rparr>]"

text \<open>A Tag table whose Priority cells are the number 0, the text \<open>high\<close> and the number 5,
  and a Clause table whose one clause refers to its three tags.\<close>

definition mixed_tag_head :: row where
  "mixed_tag_head = [JStr ''Tag_ID'', JStr ''Priority'']"

definition mixed_tag_rows :: "row list" where
  "mixed_tag_rows =
     [[JNum (Fin 1), JNum (Fin 0)],
      [JNum (Fin 2), JStr ''high''],
      [JNum (Fin 3), JNum (Fin 5)]]"

definition one_clause_head :: row where
  "one_clause_head = [JStr ''PC_ID'', JStr ''Tags_Array'']"

definition one_clause_rows :: "row list" where
  "one_clause_rows = [[JNum (Fin 1), JStr ''1,2,3'']]"

section \<open>Objects and maps\<close>

lemma map_of_obj_set: "map_of (obj_set k v ob) = (map_of ob)(k \<mapsto> v)"
  by (induction ob) (auto simp: fun_eq_iff)

lemma obj_get_obj_set: "obj_get (obj_set k v ob) k' = (if k' = k then v else obj_get ob k')"
  by (simp add: obj_get_def map_of_obj_set)

lemma new_Map_Cons:
  "new_Map ((k, v) # es) k' = (case new_Map es k' of Some w \<Rightarrow> Some w | None \<Rightarrow> if k' = k then Some v else None)"
  by (simp add: new_Map_def map_add_def split: option.splits)

lemma new_Map_distinct:
  "distinct (map f rows) \<Longrightarrow> r \<in> set rows \<Longrightarrow> new_Map (map (\<lambda>r. (f r, r)) rows) (f r) = Some r"
proof -
  assume d: "distinct (map f rows)" and m: "r \<in> set rows"
  have "distinct (map fst (rev (map (\<lambda>r. (f r, r)) rows)))"
    using d by (simp add: rev_map [symmetric] comp_def)
  moreover have "(f r, r) \<in> set (rev (map (\<lambda>r. (f r, r)) rows))"
    using m by auto
  ultimately show ?thesis
    unfolding new_Map_def by (rule map_of_is_SomeI)
qed

lemma new_Map_Some_mem:
  "new_Map (map (\<lambda>r. (f r, r)) rows) k = Some r \<Longrightarrow> r \<in> set rows \<and> f r = k"
  unfolding new_Map_def by (auto dest!: map_of_SomeD)

lemma new_Map_None_iff:
  "new_Map (map (\<lambda>r. (f r, r)) rows) k = None \<longleftrightarrow> k \<notin> f ` set rows"
  unfolding new_Map_def by (simp add: map_of_eq_None_iff image_image)

lemma clauses_loop_get:
  "map_of (clauses_loop a iPc iInc iExc rows result) pc =
     (case new_Map (map (\<lambda>r. (js_Number (cell r iPc), r)) rows) pc of
        None \<Rightarrow> map_of result pc
      | Some r \<Rightarrow> Some (row_verdict a iInc iExc r))"
proof (induction rows arbitrary: result)
  case Nil
  show ?case by (simp add: new_Map_def)
next
  case (Cons r rows)
  show ?case
    by (simp add: Cons.IH new_Map_Cons map_of_obj_set row_verdict_def Let_def split: option.splits)
qed

lemma evaluateClauses_get:
  "obj_get (evaluateClauses a (Some (head # rows))) pc =
     (case new_Map (map (\<lambda>r. (js_Number (cell r (findCol_or_first head col_pc_id)), r)) rows) pc of
        None \<Rightarrow> JUndefined
      | Some r \<Rightarrow> row_verdict a (findCol head col_include_if_list) (findCol head col_exclude_if_list) r)"
  by (simp add: evaluateClauses_def obj_get_def clauses_loop_get Let_def split: option.splits)

lemma evaluateClauses_row:
  assumes "distinct (map (\<lambda>r. js_Number (cell r (findCol_or_first head col_pc_id))) rows)"
    and "r \<in> set rows"
  shows "obj_get (evaluateClauses a (Some (head # rows)))
           (js_Number (cell r (findCol_or_first head col_pc_id))) =
         row_verdict a (findCol head col_include_if_list) (findCol head col_exclude_if_list) r"
  using new_Map_distinct [OF assms] by (simp add: evaluateClauses_get)

lemma val_cases: "val a t = JNum (Fin 1) \<or> val a t = JNum (Fin (- 1)) \<or> val a t = JNum (Fin 0)"
  by (simp add: val_def Let_def)

lemma val_tri_state:
  assumes "tri_state a"
  shows "val a t = spec_value a t"
proof (cases "map_of a t")
  case None
  then show ?thesis by (simp add: val_def spec_value_def obj_get_def)
next
  case (Some v)
  then have "(t, v) \<in> set a" by (rule map_of_SomeD)
  with assms have "v = JNum (Fin 1) \<or> v = JNum (Fin (- 1)) \<or> v = JNum (Fin 0)"
    by (auto simp: tri_state_def)
  with Some show ?thesis by (auto simp: val_def spec_value_def obj_get_def)
qed

lemma clause_verdict_spec:
  assumes "tri_state a"
  shows "clause_verdict a inc exc = spec_verdict a inc exc"
  by (auto simp: clause_verdict_def spec_verdict_def val_tri_state [OF assms] list_ex_iff
      list_all_iff Let_def)

section \<open>Evaluating the example tables\<close>

lemmas string_eval =
  js_trim_def is_space_def underscores_to_spaces_def toLowerCase_def to_lower_char_def
  ascii_upper_def char_of_def bit_Suc_0_iff is_sep_def nullish_def js_or_def

lemmas number_eval =
  string_to_number_def signed_decimal_def unsigned_decimal_def is_digit_def exponent_part_def
  scale10_def nat_of_digits_def digit_val_def round_range_def radix_literal_def

lemmas column_defs =
  col_tag_id_def col_tag_category_def col_priority_def col_question_def col_entry_type_def
  col_entry_category_def col_helper_text_def col_name_def col_variable_array_def
  col_object_name_def col_variable_type_def col_associated_clause_array_def col_pc_id_def
  col_tags_array_def col_include_if_list_def col_exclude_if_list_def

lemma digits_of_small: "n < 10 \<Longrightarrow> digits_of n = [digit_char n]"
  by (simp add: digits_of.simps)

lemma digits_of_large:
  "10 \<le> n \<Longrightarrow> digits_of n = digits_of (n div 10) @ [digit_char (n mod 10)]"
  by (simp add: digits_of.simps)

lemma decimal_places_integer: "q = of_int \<lfloor>q\<rfloor> \<Longrightarrow> decimal_places fuel q = 0"
  by (simp add: decimal_places.simps)

lemma trailing_zeros_none: "n mod 10 \<noteq> 0 \<Longrightarrow> trailing_zeros n = 0"
  by (simp add: trailing_zeros.simps)

lemma trailing_zeros_some:
  "n \<noteq> 0 \<Longrightarrow> n mod 10 = 0 \<Longrightarrow> trailing_zeros n = 1 + trailing_zeros (n div 10)"
  by (simp add: trailing_zeros.simps)

lemmas print_eval =
  positive_to_string_def digits_of_small digits_of_large decimal_places_integer
  trailing_zeros_none trailing_zeros_some digit_char_def Let_def

lemma positive_to_string_20: "positive_to_string 20 = ''20''"
  by (simp add: print_eval)

lemma clause_head_cols:
  "findCol_or_first clause_head col_pc_id = 0"
  "findCol clause_head col_include_if_list = 1"
  "findCol clause_head col_exclude_if_list = 2"
  "findCol clause_head col_tags_array = 3"
  by (simp_all add: findCol_or_first_def findCol_def clause_head_def column_defs string_eval)

lemma clause_rows_pc:
  "map (\<lambda>r. js_Number (cell r 0)) clause_rows = [Fin 1, Fin 2, Fin 3, Fin 4]"
  by (simp add: clause_rows_def cell_def number_eval string_eval)

lemma clause_rows_inc:
  "map (\<lambda>r. uniqNums (map JStr (parseList (cell r 1)))) clause_rows
     = [[Fin 10], [], [], [Fin 10, Fin 99]]"
  by (simp add: clause_rows_def cell_def parseList_def uniqNums_def new_Set_def set_add_def
      number_eval string_eval)

lemma clause_rows_exc:
  "map (\<lambda>r. uniqNums (map JStr (parseList (cell r 2)))) clause_rows
     = [[], [Fin 20], [], [Fin 20]]"
  by (simp add: clause_rows_def cell_def parseList_def uniqNums_def new_Set_def set_add_def
      number_eval string_eval positive_to_string_20)

section \<open>The clause evaluator\<close>

text \<open>
  \<^bold>\<open>C1.\<close> For a tag-truth mapping (every entry is 1, -1 or 0) and a clause table whose PC_IDs
  are unique, the evaluator gives every clause row, under its numeric PC_ID, the verdict the
  rules determine from the parsed include and exclude lists: -1 if an include tag has value -1,
  else -1 if an exclude tag has value 1, else 1 if all include tags have value 1 and all exclude
  tags have value -1, else 0. The value of a tag is its entry in the mapping, and 0 without
  one; the Tag table plays no part.
\<close>

theorem evaluateClauses_verdict:
  assumes "tri_state assignedTags"
    and "distinct (map (\<lambda>r. js_Number (cell r (findCol_or_first head col_pc_id))) rows)"
    and "r \<in> set rows"
  shows "obj_get (evaluateClauses assignedTags (Some (head # rows)))
           (js_Number (cell r (findCol_or_first head col_pc_id))) =
         spec_verdict assignedTags
           (uniqNums (map JStr (parseList (cell r (findCol head col_include_if_list)))))
           (uniqNums (map JStr (parseList (cell r (findCol head col_exclude_if_list)))))"
  using evaluateClauses_row [OF assms(2,3)] clause_verdict_spec [OF assms(1)]
  by (simp add: row_verdict_def)

theorem evaluateClauses_verdict_witness:
  "tri_state truth_yes10_no20
   \<and> distinct (map (\<lambda>r. js_Number (cell r (findCol_or_first clause_head col_pc_id))) clause_rows)
   \<and> clause_rows ! 3 \<in> set clause_rows
   \<and> obj_get (evaluateClauses truth_yes10_no20 (Some (clause_head # clause_rows))) (Fin 4)
       = spec_verdict truth_yes10_no20 [Fin 10, Fin 99] [Fin 20]
   \<and> spec_verdict truth_yes10_no20 [Fin 10, Fin 99] [Fin 20] = JNum (Fin 0)"
proof -
  have t: "tri_state truth_yes10_no20"
    by (simp add: tri_state_def truth_yes10_no20_def)
  have d: "distinct (map (\<lambda>r. js_Number (cell r (findCol_or_first clause_head col_pc_id)))
             clause_rows)"
    by (simp add: clause_head_cols clause_rows_pc)
  have m: "clause_rows ! 3 \<in> set clause_rows"
    by (simp add: clause_rows_def)
  have pc: "js_Number (cell (clause_rows ! 3) 0) = Fin 4"
    using arg_cong [OF clause_rows_pc, of "\<lambda>xs. xs ! 3"] by (simp add: clause_rows_def)
  have inc: "uniqNums (map JStr (parseList (cell (clause_rows ! 3) 1))) = [Fin 10, Fin 99]"
    using arg_cong [OF clause_rows_inc, of "\<lambda>xs. xs ! 3"] by (simp add: clause_rows_def)
  have exc: "uniqNums (map JStr (parseList (cell (clause_rows ! 3) 2))) = [Fin 20]"
    using arg_cong [OF clause_rows_exc, of "\<lambda>xs. xs ! 3"] by (simp add: clause_rows_def)
  have v: "spec_verdict truth_yes10_no20 [Fin 10, Fin 99] [Fin 20] = JNum (Fin 0)"
    by (simp add: spec_verdict_def spec_value_def truth_yes10_no20_def)
  show ?thesis
    using evaluateClauses_verdict [OF t d m] t d m v
    by (simp add: clause_head_cols pc inc exc)
qed

lemma example_verdict:
  assumes "i < 4"
  shows "obj_get (evaluateClauses a (Some (clause_head # clause_rows)))
           ([Fin 1, Fin 2, Fin 3, Fin 4] ! i) =
         clause_verdict a ([[Fin 10], [], [], [Fin 10, Fin 99]] ! i)
           ([[], [Fin 20], [], [Fin 20]] ! i)"
proof -
  have len: "length clause_rows = 4" by (simp add: clause_rows_def)
  have d: "distinct (map (\<lambda>r. js_Number (cell r (findCol_or_first clause_head col_pc_id)))
             clause_rows)"
    by (simp add: clause_head_cols clause_rows_pc)
  have m: "clause_rows ! i \<in> set clause_rows"
    using assms len by simp
  have pc: "js_Number (cell (clause_rows ! i) 0) = [Fin 1, Fin 2, Fin 3, Fin 4] ! i"
    using arg_cong [OF clause_rows_pc, of "\<lambda>xs. xs ! i"] assms len by simp
  have inc: "uniqNums (map JStr (parseList (cell (clause_rows ! i) 1)))
               = [[Fin 10], [], [], [Fin 10, Fin 99]] ! i"
    using arg_cong [OF clause_rows_inc, of "\<lambda>xs. xs ! i"] assms len by simp
  have exc: "uniqNums (map JStr (parseList (cell (clause_rows ! i) 2)))
               = [[], [Fin 20], [], [Fin 20]] ! i"
    using arg_cong [OF clause_rows_exc, of "\<lambda>xs. xs ! i"] assms len by simp
  show ?thesis
    using evaluateClauses_row [OF d m, of a]
    by (simp add: clause_head_cols pc inc exc row_verdict_def)
qed

text \<open>
  \<^bold>\<open>C6.\<close> A clause whose parsed include and exclude lists are both empty gets the verdict 1
  under every tag-truth mapping (the PC_IDs of the table being unique, so that the clause has
  a verdict of its own).
\<close>

theorem evaluateClauses_no_conditions:
  assumes "distinct (map (\<lambda>r. js_Number (cell r (findCol_or_first head col_pc_id))) rows)"
    and "r \<in> set rows"
    and "uniqNums (map JStr (parseList (cell r (findCol head col_include_if_list)))) = []"
    and "uniqNums (map JStr (parseList (cell r (findCol head col_exclude_if_list)))) = []"
  shows "obj_get (evaluateClauses assignedTags (Some (head # rows)))
           (js_Number (cell r (findCol_or_first head col_pc_id))) = JNum (Fin 1)"
  using evaluateClauses_row [OF assms(1,2), of assignedTags] assms(3,4)
  by (simp add: row_verdict_def clause_verdict_def)

theorem evaluateClauses_no_conditions_witness:
  "distinct (map (\<lambda>r. js_Number (cell r (findCol_or_first clause_head col_pc_id))) clause_rows)
   \<and> clause_rows ! 2 \<in> set clause_rows
   \<and> uniqNums (map JStr (parseList (cell (clause_rows ! 2) (findCol clause_head col_include_if_list)))) = []
   \<and> uniqNums (map JStr (parseList (cell (clause_rows ! 2) (findCol clause_head col_exclude_if_list)))) = []
   \<and> obj_get (evaluateClauses truth_yes20 (Some (clause_head # clause_rows))) (Fin 3)
       = JNum (Fin 1)"
proof -
  have d: "distinct (map (\<lambda>r. js_Number (cell r (findCol_or_first clause_head col_pc_id)))
             clause_rows)"
    by (simp add: clause_head_cols clause_rows_pc)
  have m: "clause_rows ! 2 \<in> set clause_rows"
    by (simp add: clause_rows_def)
  have pc: "js_Number (cell (clause_rows ! 2) 0) = Fin 3"
    using arg_cong [OF clause_rows_pc, of "\<lambda>xs. xs ! 2"] by (simp add: clause_rows_def)
  have inc: "uniqNums (map JStr (parseList (cell (clause_rows ! 2)
               (findCol clause_head col_include_if_list)))) = []"
    using arg_cong [OF clause_rows_inc, of "\<lambda>xs. xs ! 2"]
    by (simp add: clause_rows_def clause_head_cols)
  have exc: "uniqNums (map JStr (parseList (cell (clause_rows ! 2)
               (findCol clause_head col_exclude_if_list)))) = []"
    using arg_cong [OF clause_rows_exc, of "\<lambda>xs. xs ! 2"]
    by (simp add: clause_rows_def clause_head_cols)
  show ?thesis
    using evaluateClauses_no_conditions [OF d m inc exc, of truth_yes20] d m inc exc
    by (simp add: clause_head_cols pc)
qed

lemma clause_verdict_sticky:
  assumes "more_positive_answers a a'"
    and "clause_verdict a inc exc = JNum (Fin (- 1))"
  shows "clause_verdict a' inc exc = JNum (Fin (- 1))"
proof -
  have step: "val a' t = val a t \<or> (val a t = JNum (Fin 0) \<and> val a' t = JNum (Fin 1))" for t
    using assms(1) by (simp add: more_positive_answers_def)
  from assms(2) have "(\<exists>t \<in> set inc. val a t = JNum (Fin (- 1)))
      \<or> (\<exists>t \<in> set exc. val a t = JNum (Fin 1))"
    by (auto simp: clause_verdict_def list_ex_iff Let_def split: if_splits)
  then show ?thesis
  proof
    assume "\<exists>t \<in> set inc. val a t = JNum (Fin (- 1))"
    then obtain t where t: "t \<in> set inc" "val a t = JNum (Fin (- 1))" by blast
    from step [of t] t(2) have "val a' t = JNum (Fin (- 1))" by auto
    with t(1) show ?thesis by (auto simp: clause_verdict_def list_ex_iff)
  next
    assume "\<exists>t \<in> set exc. val a t = JNum (Fin 1)"
    then obtain t where t: "t \<in> set exc" "val a t = JNum (Fin 1)" by blast
    from step [of t] t(2) have "val a' t = JNum (Fin 1)" by auto
    with t(1) show ?thesis by (auto simp: clause_verdict_def list_ex_iff)
  qed
qed

text \<open>
  \<^bold>\<open>C5.\<close> Within one evaluation, a verdict of -1 is sticky: if a clause has the verdict -1
  under a tag-truth mapping, it has the verdict -1 (hence not 1) under every mapping that
  differs only by turning tags of value 0, or without an entry, into 1.
\<close>

theorem evaluateClauses_sticky:
  assumes "more_positive_answers a a'"
    and "obj_get (evaluateClauses a filteredClausesTable) pc = JNum (Fin (- 1))"
  shows "obj_get (evaluateClauses a' filteredClausesTable) pc = JNum (Fin (- 1))"
proof (cases filteredClausesTable)
  case None
  with assms(2) show ?thesis by (simp add: evaluateClauses_def obj_get_def)
next
  case (Some t)
  show ?thesis
  proof (cases t)
    case Nil
    with Some assms(2) show ?thesis by (simp add: evaluateClauses_def obj_get_def)
  next
    case (Cons head rows)
    with Some assms(2) show ?thesis
      by (auto simp: evaluateClauses_get row_verdict_def split: option.splits
          intro: clause_verdict_sticky [OF assms(1)])
  qed
qed

theorem evaluateClauses_sticky_witness:
  "more_positive_answers truth_yes20 truth_yes20_yes10
   \<and> obj_get (evaluateClauses truth_yes20 (Some (clause_head # clause_rows))) (Fin 4)
       = JNum (Fin (- 1))
   \<and> obj_get (evaluateClauses truth_yes20_yes10 (Some (clause_head # clause_rows))) (Fin 4)
       = JNum (Fin (- 1))"
proof -
  have h: "more_positive_answers truth_yes20 truth_yes20_yes10"
    by (simp add: more_positive_answers_def val_def obj_get_def truth_yes20_def
        truth_yes20_yes10_def)
  have v: "obj_get (evaluateClauses truth_yes20 (Some (clause_head # clause_rows))) (Fin 4)
             = JNum (Fin (- 1))"
    using example_verdict [of 3 truth_yes20]
    by (simp add: clause_verdict_def val_def obj_get_def truth_yes20_def)
  show ?thesis
    using evaluateClauses_sticky [OF h v] h v by simp
qed

section \<open>Table helpers\<close>

lemma set_foldl_set_add: "set (foldl set_add acc xs) = set acc \<union> set xs"
  by (induction xs arbitrary: acc) (auto simp: set_add_def)

lemma distinct_foldl_set_add: "distinct acc \<Longrightarrow> distinct (foldl set_add acc xs)"
  by (induction xs arbitrary: acc) (auto simp: set_add_def)

lemma set_new_Set: "set (new_Set xs) = set xs"
  by (simp add: new_Set_def set_foldl_set_add)

lemma distinct_new_Set: "distinct (new_Set xs)"
  by (simp add: new_Set_def distinct_foldl_set_add)

lemma set_uniqNums: "set (uniqNums arr) = {n \<in> js_Number ` set arr. isFinite n}"
  by (auto simp: uniqNums_def set_new_Set)

lemma distinct_uniqNums: "distinct (uniqNums arr)"
  by (simp add: uniqNums_def distinct_new_Set)

lemma tag_head_cols:
  "findCol_or_first tag_head col_tag_id = 0"
  "findCol tag_head col_priority = 1"
  "findCol tag_head col_question = 2"
  "findCol tag_head col_entry_type = 3"
  "findCol tag_head col_entry_category = 4"
  "findCol tag_head col_tag_category = - 1"
  "findCol tag_head col_helper_text = - 1"
  by (simp_all add: findCol_or_first_def findCol_def tag_head_def column_defs string_eval)

lemma tag_rows_id:
  "map (\<lambda>r. js_Number (cell r 0)) tag_rows = [Fin 10, Fin 20, Fin 30, Fin 40]"
  by (simp add: tag_rows_def cell_def number_eval string_eval)

text \<open>
  \<^bold>\<open>C10.\<close> \<^verbatim>\<open>filterTableByIds\<close> returns the empty array for an absent or empty table; the
  header row alone for a non-empty table and an absent or empty id list; and otherwise the
  header row followed by the data rows, in their order, whose first cell, converted to a
  number, is among the ids converted to numbers (NaN counting as equal to NaN).
\<close>

theorem filterTableByIds_cases:
  "(aoa = None \<or> aoa = Some [] \<longrightarrow> filterTableByIds aoa ids = [])
   \<and> (aoa = Some (head # rows) \<and> (ids = None \<or> ids = Some []) \<longrightarrow>
        filterTableByIds aoa ids = [head])
   \<and> (aoa = Some (head # rows) \<and> ids = Some idl \<and> idl \<noteq> [] \<longrightarrow>
        filterTableByIds aoa ids =
          head # filter (\<lambda>r. js_Number (cell r 0) \<in> js_Number ` set idl) rows)"
  by (auto simp: filterTableByIds_def set_new_Set Let_def split: option.splits list.splits)

theorem filterTableByIds_cases_witness:
  "filterTableByIds None (Some [JNum (Fin 10)]) = []
   \<and> filterTableByIds (Some (tag_head # tag_rows)) (Some []) = [tag_head]
   \<and> filterTableByIds (Some (tag_head # tag_rows)) (Some [JNum (Fin 30), JStr ''10''])
       = [tag_head, tag_rows ! 0, tag_rows ! 2]"
proof -
  have n: "string_to_number ''10'' = Fin 10"
    by (simp add: number_eval string_eval)
  have f: "filter (\<lambda>r. js_Number (cell r 0) = Fin 30 \<or> js_Number (cell r 0) = Fin 10) tag_rows
             = [tag_rows ! 0, tag_rows ! 2]"
    by (simp add: tag_rows_def cell_def number_eval string_eval)
  show ?thesis
    using filterTableByIds_cases [of None "Some [JNum (Fin 10)]" tag_head tag_rows "[]"]
      filterTableByIds_cases [of "Some (tag_head # tag_rows)" "Some []" tag_head tag_rows "[]"]
      filterTableByIds_cases [of "Some (tag_head # tag_rows)"
        "Some [JNum (Fin 30), JStr ''10'']" tag_head tag_rows "[JNum (Fin 30), JStr ''10'']"]
    by (simp add: f n)
qed

section \<open>The tag answer evaluator\<close>

lemma tags_loop_get:
  "map_of (tags_loop rowById iECat iType entries out) tid =
     (case new_Map (map (\<lambda>(k, v). (js_Number (JStr k), v)) entries) tid of
        None \<Rightarrow> map_of out tid
      | Some v \<Rightarrow>
          (case rowById tid of
             None \<Rightarrow> map_of out tid
           | Some row \<Rightarrow> Some (tag_truth row iECat iType v)))"
proof (induction entries arbitrary: out)
  case Nil
  show ?case by (simp add: new_Map_def)
next
  case (Cons e entries)
  obtain k v where e: "e = (k, v)" by (cases e)
  let ?es = "new_Map (map (\<lambda>(k, v). (js_Number (JStr k), v)) entries) tid"
  show ?case
  proof (cases "rowById (js_Number (JStr k))")
    case None
    then show ?thesis
      by (cases ?es) (auto simp: e Cons.IH new_Map_Cons)
  next
    case (Some row)
    then show ?thesis
      by (cases ?es) (auto simp: e Cons.IH new_Map_Cons map_of_obj_set split: option.splits)
  qed
qed

lemma new_Map_pairs_distinct:
  assumes "distinct (map (\<lambda>(k, v). f k) entries)" and "(k, v) \<in> set entries"
  shows "new_Map (map (\<lambda>(k, v). (f k, v)) entries) (f k) = Some v"
proof -
  have "map fst (rev (map (\<lambda>(k, v). (f k, v)) entries)) = rev (map (\<lambda>(k, v). f k) entries)"
    by (simp add: rev_map comp_def case_prod_unfold)
  then have "distinct (map fst (rev (map (\<lambda>(k, v). (f k, v)) entries)))"
    using assms(1) by simp
  moreover have "(f k, v) \<in> set (rev (map (\<lambda>(k, v). (f k, v)) entries))"
    using assms(2) by force
  ultimately show ?thesis
    unfolding new_Map_def by (rule map_of_is_SomeI)
qed

lemma new_Map_pairs_None_iff:
  "new_Map (map (\<lambda>(k, v). (f k, v)) entries) tid = None \<longleftrightarrow> tid \<notin> (\<lambda>(k, v). f k) ` set entries"
  unfolding new_Map_def by (force simp: map_of_eq_None_iff image_image case_prod_unfold)

text \<open>
  \<^bold>\<open>C3.\<close> For an answer mapping whose keys denote distinct tags and a restricted Tag table
  whose Tag_IDs are unique, \<^verbatim>\<open>evaluateTagsBuildMode\<close> gives a truth value exactly to the tag
  identifiers that are a key of the answer mapping and a row of the table (to none when the
  table is absent or empty). For such a tag with the answer \<open>v\<close>: if the canonical
  Entry_Category is \<open>bool\<close>, the value is 1 for the canonical answer \<open>yes\<close>, -1 for \<open>no\<close> and 0
  for anything else; otherwise, whatever the Entry_Type, it is 1 for an answer that is not
  empty after trimming and 0 for an empty one.
\<close>

theorem evaluateTagsBuildMode_truth:
  assumes "distinct (map (\<lambda>r. js_Number (cell r (findCol_or_first head col_tag_id))) rows)"
    and "distinct (map (\<lambda>(k, v). js_Number (JStr k)) answeredTags)"
  shows "evaluateTagsBuildMode answeredTags None = []
    \<and> evaluateTagsBuildMode answeredTags (Some []) = []
    \<and> (\<forall>tid. map_of (evaluateTagsBuildMode answeredTags (Some (head # rows))) tid \<noteq> None \<longleftrightarrow>
          tid \<in> (\<lambda>(k, v). js_Number (JStr k)) ` set answeredTags
          \<and> tid \<in> (\<lambda>r. js_Number (cell r (findCol_or_first head col_tag_id))) ` set rows)
    \<and> (\<forall>k v row. (k, v) \<in> set answeredTags \<and> row \<in> set rows
          \<and> js_Number (cell row (findCol_or_first head col_tag_id)) = js_Number (JStr k) \<longrightarrow>
          obj_get (evaluateTagsBuildMode answeredTags (Some (head # rows))) (js_Number (JStr k)) =
            (if canon (cell row (findCol head col_entry_category)) = ''bool''
             then (if canon v = ''yes'' then JNum (Fin 1)
                   else if canon v = ''no'' then JNum (Fin (- 1))
                   else JNum (Fin 0))
             else (if js_trim (js_String (nullish v (JStr ''''))) \<noteq> [] then JNum (Fin 1)
                   else JNum (Fin 0))))"
proof -
  let ?iId = "findCol_or_first head col_tag_id"
  let ?rowById = "new_Map (map (\<lambda>r. (js_Number (cell r ?iId), r)) rows)"
  let ?ans = "new_Map (map (\<lambda>(k, v). (js_Number (JStr k), v)) answeredTags)"
  have get: "map_of (evaluateTagsBuildMode answeredTags (Some (head # rows))) tid =
      (case ?ans tid of
         None \<Rightarrow> None
       | Some v \<Rightarrow>
           (case ?rowById tid of
              None \<Rightarrow> None
            | Some row \<Rightarrow>
                Some (tag_truth row (findCol head col_entry_category)
                        (findCol head col_entry_type) v)))" for tid
    by (simp add: evaluateTagsBuildMode_def tags_loop_get Let_def split: option.splits)
  have dom: "map_of (evaluateTagsBuildMode answeredTags (Some (head # rows))) tid \<noteq> None \<longleftrightarrow>
      tid \<in> (\<lambda>(k, v). js_Number (JStr k)) ` set answeredTags
      \<and> tid \<in> (\<lambda>r. js_Number (cell r ?iId)) ` set rows" for tid
  proof -
    have a: "?ans tid = None \<longleftrightarrow> tid \<notin> (\<lambda>(k, v). js_Number (JStr k)) ` set answeredTags"
      by (rule new_Map_pairs_None_iff)
    have b: "?rowById tid = None \<longleftrightarrow> tid \<notin> (\<lambda>r. js_Number (cell r ?iId)) ` set rows"
      by (rule new_Map_None_iff)
    show ?thesis
      using a b by (auto simp: get split: option.splits)
  qed
  have truth: "obj_get (evaluateTagsBuildMode answeredTags (Some (head # rows)))
        (js_Number (JStr k)) =
      (if canon (cell row (findCol head col_entry_category)) = ''bool''
       then (if canon v = ''yes'' then JNum (Fin 1)
             else if canon v = ''no'' then JNum (Fin (- 1))
             else JNum (Fin 0))
       else (if js_trim (js_String (nullish v (JStr ''''))) \<noteq> [] then JNum (Fin 1)
             else JNum (Fin 0)))"
    if kv: "(k, v) \<in> set answeredTags" and row: "row \<in> set rows"
      and same: "js_Number (cell row ?iId) = js_Number (JStr k)" for k v row
  proof -
    have a: "?ans (js_Number (JStr k)) = Some v"
      using new_Map_pairs_distinct [OF assms(2) kv] .
    have b: "?rowById (js_Number (JStr k)) = Some row"
      using new_Map_distinct [OF assms(1) row] same by simp
    show ?thesis
      using a b by (simp add: obj_get_def get tag_truth_def Let_def)
  qed
  show ?thesis
    using dom truth by (simp add: evaluateTagsBuildMode_def)
qed
theorem evaluateTagsBuildMode_truth_witness:
  "distinct (map (\<lambda>r. js_Number (cell r (findCol_or_first tag_head col_tag_id))) tag_rows)
   \<and> distinct (map (\<lambda>(k, v). js_Number (JStr k)) answers)
   \<and> obj_get (evaluateTagsBuildMode answers (Some (tag_head # tag_rows))) (Fin 10) = JNum (Fin 1)
   \<and> obj_get (evaluateTagsBuildMode answers (Some (tag_head # tag_rows))) (Fin 20)
       = JNum (Fin (- 1))
   \<and> obj_get (evaluateTagsBuildMode answers (Some (tag_head # tag_rows))) (Fin 30) = JNum (Fin 0)
   \<and> obj_get (evaluateTagsBuildMode answers (Some (tag_head # tag_rows))) (Fin 40) = JNum (Fin 1)
   \<and> map_of (evaluateTagsBuildMode answers (Some (tag_head # tag_rows))) (Fin 77) = None"
proof -
  let ?out = "evaluateTagsBuildMode answers (Some (tag_head # tag_rows))"
  have d1: "distinct (map (\<lambda>r. js_Number (cell r (findCol_or_first tag_head col_tag_id)))
              tag_rows)"
    by (simp add: tag_head_cols tag_rows_id)
  have keys: "map (\<lambda>(k, v). js_Number (JStr k)) answers = [Fin 10, Fin 20, Fin 30, Fin 40, Fin 77]"
    by (simp add: answers_def number_eval string_eval)
  have d2: "distinct (map (\<lambda>(k, v). js_Number (JStr k)) answers)"
    by (simp only: keys) simp
  have ids: "(\<lambda>r. js_Number (cell r (findCol_or_first tag_head col_tag_id))) ` set tag_rows
               = {Fin 10, Fin 20, Fin 30, Fin 40}"
    using arg_cong [OF tag_rows_id, of set] by (simp add: tag_head_cols)
  note th = evaluateTagsBuildMode_truth [OF d1 d2]
  have v: "(k, v) \<in> set answers \<Longrightarrow> row \<in> set tag_rows \<Longrightarrow>
      js_Number (cell row 0) = js_Number (JStr k) \<Longrightarrow>
      obj_get ?out (js_Number (JStr k)) =
        (if canon (cell row 4) = ''bool''
         then (if canon v = ''yes'' then JNum (Fin 1)
               else if canon v = ''no'' then JNum (Fin (- 1))
               else JNum (Fin 0))
         else (if js_trim (js_String (nullish v (JStr ''''))) \<noteq> [] then JNum (Fin 1)
               else JNum (Fin 0)))" for k v row
    using th by (simp add: tag_head_cols)
  have n: "string_to_number ''10'' = Fin 10" "string_to_number ''20'' = Fin 20"
    "string_to_number ''30'' = Fin 30" "string_to_number ''40'' = Fin 40"
    by (simp_all add: number_eval string_eval)
  have c: "canon (JStr ''Bool'') = ''bool''" "canon (JStr ''bool'') = ''bool''"
    "canon (JStr ''Name'') = ''name''" "canon (JStr ''Text'') = ''text''"
    "canon (JStr ''Yes'') = ''yes''" "canon (JStr '' no '') = ''no''"
    by (simp_all add: canon_def string_eval)
  have t: "js_trim ''  '' = []" "js_trim ''5 years'' = ''5 years''"
    by (simp_all add: string_eval)
  have v10: "obj_get ?out (Fin 10) = JNum (Fin 1)"
    using v [of "''10''" "JStr ''Yes''" "tag_rows ! 0"]
    by (simp add: answers_def tag_rows_def cell_def n c)
  have v20: "obj_get ?out (Fin 20) = JNum (Fin (- 1))"
    using v [of "''20''" "JStr '' no ''" "tag_rows ! 1"]
    by (simp add: answers_def tag_rows_def cell_def n c)
  have v30: "obj_get ?out (Fin 30) = JNum (Fin 0)"
    using v [of "''30''" "JStr ''  ''" "tag_rows ! 2"]
    by (simp add: answers_def tag_rows_def cell_def n c t nullish_def)
  have v40: "obj_get ?out (Fin 40) = JNum (Fin 1)"
    using v [of "''40''" "JStr ''5 years''" "tag_rows ! 3"]
    by (simp add: answers_def tag_rows_def cell_def n c t nullish_def)
  have dom: "map_of ?out tid \<noteq> None \<longleftrightarrow>
      tid \<in> (\<lambda>(k, v). js_Number (JStr k)) ` set answers
      \<and> tid \<in> (\<lambda>r. js_Number (cell r (findCol_or_first tag_head col_tag_id))) ` set tag_rows"
    for tid
    using th by blast
  have v77: "map_of ?out (Fin 77) = None"
    using dom [of "Fin 77"] by (simp only: ids) simp
  show ?thesis
    using d1 d2 v10 v20 v30 v40 v77 by simp
qed

section \<open>The resolver\<close>

text \<open>
  \<^bold>\<open>C7.\<close> When no row of the Template table has the canonical name of the requested
  template, the resolver returns empty clause and tag arrays and at least one diagnostic,
  whatever the three tables are -- absent, empty or filled. The resolver has no failing
  operation on such inputs (every cell access is total, a missing column reads as
  \<^verbatim>\<open>undefined\<close>), so the model is a total function and returning is not in question.
\<close>

theorem resolve_unknown_template:
  assumes "\<not> template_present templatesTable templateName"
  shows "clausesArray (getTagsAndClausesByTemplateName templatesTable variablesTable clausesTable
             templateName) = []
    \<and> tagsArray (getTagsAndClausesByTemplateName templatesTable variablesTable clausesTable
             templateName) = []
    \<and> debug (getTagsAndClausesByTemplateName templatesTable variablesTable clausesTable
             templateName) \<noteq> []"
proof -
  have none: "find (\<lambda>r. canon (cell r (findCol tHead col_name)) = canon templateName) tRows = None"
    if "templatesTable = Some (tHead # tRows)" for tHead tRows
    using assms that by (simp add: template_present_def list_ex_iff find_None_iff)
  show ?thesis
    by (auto simp: getTagsAndClausesByTemplateName_def none Let_def
        split: option.splits list.splits)
qed

theorem resolve_unknown_template_witness:
  "\<not> template_present (Some (template_head # template_rows)) (JStr ''Sublease'')
   \<and> clausesArray (getTagsAndClausesByTemplateName (Some (template_head # template_rows)) (Some (variable_head # variable_rows))
        (Some (clause_head # clause_rows)) (JStr ''Sublease'')) = []
   \<and> tagsArray (getTagsAndClausesByTemplateName (Some (template_head # template_rows)) (Some (variable_head # variable_rows))
        (Some (clause_head # clause_rows)) (JStr ''Sublease'')) = []
   \<and> debug (getTagsAndClausesByTemplateName (Some (template_head # template_rows)) (Some (variable_head # variable_rows))
        (Some (clause_head # clause_rows)) (JStr ''Sublease'')) \<noteq> []"
proof -
  have h: "\<not> template_present (Some (template_head # template_rows)) (JStr ''Sublease'')"
    by (simp add: template_present_def template_head_def template_rows_def findCol_def
        col_name_def cell_def canon_def string_eval)
  show ?thesis
    using resolve_unknown_template [OF h] h by (intro conjI) simp_all
qed

section \<open>The question scheduler\<close>

lemma ratio_returned:
  "ratioCompletedTags
     (returnNextTagQuestions clauseEval filteredClausesTable clausesArr assignedTags tagsArr tagsInfo) =
   (if tagsArr = [] then 0
    else of_nat (length (filter (\<lambda>v. v = JNum (Fin 1) \<or> v = JNum (Fin (- 1)))
                           (obj_values assignedTags)))
         / of_nat (length tagsArr))"
  by (simp add: returnNextTagQuestions_def Let_def split: option.splits list.splits)

lemma decided_count:
  assumes "distinct (map fst ob)"
  shows "length (filter (\<lambda>v. v = JNum (Fin 1) \<or> v = JNum (Fin (- 1))) (obj_values ob))
           = card (decided_tags ob)"
proof -
  let ?P = "\<lambda>v. v = JNum (Fin 1) \<or> v = JNum (Fin (- 1))"
  let ?sel = "filter (\<lambda>kv. ?P (snd kv)) ob"
  have d: "distinct (map fst ?sel)"
    using assms by (simp add: distinct_map_filter)
  have "length (filter ?P (obj_values ob)) = length ?sel"
    by (simp add: obj_values_def filter_map comp_def)
  also have "\<dots> = card (set (map fst ?sel))"
    using distinct_card [OF d] by simp
  also have "set (map fst ?sel) = decided_tags ob"
  proof (rule set_eqI)
    fix t
    show "t \<in> set (map fst ?sel) \<longleftrightarrow> t \<in> decided_tags ob"
    proof
      assume "t \<in> set (map fst ?sel)"
      then obtain v where "(t, v) \<in> set ob" "?P v" by auto
      with assms have "map_of ob t = Some v" "?P v" by simp_all
      then show "t \<in> decided_tags ob" by (auto simp: decided_tags_def obj_get_def)
    next
      assume "t \<in> decided_tags ob"
      then obtain v where "map_of ob t = Some v" "?P v"
        by (auto simp: decided_tags_def obj_get_def split: option.splits)
      then have "(t, v) \<in> set ob" "?P v" by (auto dest: map_of_SomeD)
      then show "t \<in> set (map fst ?sel)" by force
    qed
  qed
  finally show ?thesis .
qed

text \<open>
  \<^bold>\<open>C8, as the code has it.\<close> The completion ratio is the number of tags of the tag-truth
  mapping whose value is 1 or -1, whether they belong to the tag-identifier universe or not,
  divided by the length of the universe, and 0 for an empty universe. It is the ratio of the
  specification when the universe lists no tag twice and contains every tag the mapping
  decides.
\<close>

theorem completion_ratio:
  assumes "distinct (map fst assignedTags)"
  shows "ratioCompletedTags
           (returnNextTagQuestions clauseEval filteredClausesTable clausesArr assignedTags tagsArr
              tagsInfo) =
         (if tagsArr = [] then 0
          else of_nat (card (decided_tags assignedTags)) / of_nat (length tagsArr))
    \<and> (distinct tagsArr \<and> decided_tags assignedTags \<subseteq> set tagsArr \<longrightarrow>
         ratioCompletedTags
           (returnNextTagQuestions clauseEval filteredClausesTable clausesArr assignedTags tagsArr
              tagsInfo) = spec_completionRatio assignedTags tagsArr)"
proof -
  have general: "ratioCompletedTags
      (returnNextTagQuestions clauseEval filteredClausesTable clausesArr assignedTags tagsArr
         tagsInfo) =
      (if tagsArr = [] then 0
       else of_nat (card (decided_tags assignedTags)) / of_nat (length tagsArr))"
    by (simp add: ratio_returned decided_count [OF assms])
  have "card (decided_tags assignedTags)
      = length (filter (\<lambda>t. obj_get assignedTags t = JNum (Fin 1)
                             \<or> obj_get assignedTags t = JNum (Fin (- 1))) tagsArr)"
    if d: "distinct tagsArr" and sub: "decided_tags assignedTags \<subseteq> set tagsArr"
  proof -
    let ?Q = "\<lambda>t. obj_get assignedTags t = JNum (Fin 1) \<or> obj_get assignedTags t = JNum (Fin (- 1))"
    have "set (filter ?Q tagsArr) = decided_tags assignedTags"
      using sub by (auto simp: decided_tags_def)
    moreover have "distinct (filter ?Q tagsArr)"
      using d by simp
    ultimately show ?thesis
      by (metis distinct_card)
  qed
  then show ?thesis
    using general by (simp add: spec_completionRatio_def)
qed

theorem completion_ratio_witness:
  "distinct (map fst truth_yes10_no20)
   \<and> distinct [Fin 10, Fin 20, Fin 30, Fin 40]
   \<and> decided_tags truth_yes10_no20 \<subseteq> set [Fin 10, Fin 20, Fin 30, Fin 40]
   \<and> ratioCompletedTags
        (returnNextTagQuestions [] None [] truth_yes10_no20 [Fin 10, Fin 20, Fin 30, Fin 40] [])
       = spec_completionRatio truth_yes10_no20 [Fin 10, Fin 20, Fin 30, Fin 40]
   \<and> spec_completionRatio truth_yes10_no20 [Fin 10, Fin 20, Fin 30, Fin 40] = 1 / 2"
proof -
  have a: "distinct (map fst truth_yes10_no20)"
    by (simp add: truth_yes10_no20_def)
  have b: "distinct [Fin 10, Fin 20, Fin 30, Fin 40]"
    by simp
  have c: "decided_tags truth_yes10_no20 \<subseteq> set [Fin 10, Fin 20, Fin 30, Fin 40]"
    by (auto simp: decided_tags_def obj_get_def truth_yes10_no20_def split: if_splits)
  have s: "spec_completionRatio truth_yes10_no20 [Fin 10, Fin 20, Fin 30, Fin 40] = 1 / 2"
    by (simp add: spec_completionRatio_def obj_get_def truth_yes10_no20_def)
  show ?thesis
    using completion_ratio [OF a, of "[]" None "[]" "[Fin 10, Fin 20, Fin 30, Fin 40]" "[]"] a b c s
    by simp
qed

text \<open>
  \<^bold>\<open>C8, as the specification words it,\<close> fails: with the universe \<open>[7]\<close> and a mapping that
  decides tag 5 only, no tag of the universe has a truth value, yet the ratio returned is 1.
\<close>

theorem completion_ratio_counterexample:
  "ratioCompletedTags
     (returnNextTagQuestions [] None [] [(Fin 5, JNum (Fin 1))] [Fin 7] []) = 1
   \<and> spec_completionRatio [(Fin 5, JNum (Fin 1))] [Fin 7] = 0"
  by (simp add: ratio_returned obj_values_def spec_completionRatio_def obj_get_def)

subsection \<open>Sorting with a comparator\<close>

lemma set_js_insert: "set (js_insert cmp x ys) = insert x (set ys)"
  by (induction ys) auto

lemma set_js_sort: "set (js_sort cmp xs) = set xs"
  by (induction xs) (simp_all add: js_sort_def set_js_insert)

lemma length_js_insert: "length (js_insert cmp x ys) = Suc (length ys)"
  by (induction ys) auto

lemma length_js_sort: "length (js_sort cmp xs) = length xs"
  by (induction xs) (simp_all add: js_sort_def length_js_insert)

lemma distinct_map_js_insert:
  "distinct (map f (js_insert cmp x ys)) \<longleftrightarrow> f x \<notin> f ` set ys \<and> distinct (map f ys)"
  by (induction ys) (auto simp: set_js_insert)

lemma distinct_map_js_sort: "distinct (map f (js_sort cmp xs)) \<longleftrightarrow> distinct (map f xs)"
  by (induction xs) (simp_all add: js_sort_def distinct_map_js_insert set_js_sort [unfolded js_sort_def])

text \<open>When ``not after'' is transitive on the elements and the comparator is never positive
  both ways, the insertion keeps a sorted array sorted.\<close>

lemma sorted_js_insert:
  assumes trans: "\<And>a b c. a \<in> S \<Longrightarrow> b \<in> S \<Longrightarrow> c \<in> S \<Longrightarrow>
      \<not> positive (cmp a b) \<Longrightarrow> \<not> positive (cmp b c) \<Longrightarrow> \<not> positive (cmp a c)"
    and asym: "\<And>a b. a \<in> S \<Longrightarrow> b \<in> S \<Longrightarrow> positive (cmp a b) \<Longrightarrow> \<not> positive (cmp b a)"
    and "x \<in> S" and "set ys \<subseteq> S"
    and "sorted_wrt (\<lambda>a b. \<not> positive (cmp a b)) ys"
  shows "sorted_wrt (\<lambda>a b. \<not> positive (cmp a b)) (js_insert cmp x ys)"
  using assms(4,5)
proof (induction ys)
  case Nil
  show ?case by simp
next
  case (Cons y ys)
  show ?case
  proof (cases "positive (cmp x y)")
    case True
    have "\<not> positive (cmp y x)"
      using asym [OF \<open>x \<in> S\<close> _ True] Cons.prems(1) by simp
    then show ?thesis
      using True Cons by (auto simp: set_js_insert)
  next
    case False
    have "\<not> positive (cmp x z)" if "z \<in> set ys" for z
    proof -
      have "\<not> positive (cmp y z)" using Cons.prems(2) that by simp
      then show ?thesis
        using trans [OF \<open>x \<in> S\<close> _ _ False] Cons.prems(1) that by auto
    qed
    then show ?thesis
      using False Cons.prems(2) by auto
  qed
qed

lemma sorted_js_sort:
  assumes trans: "\<And>a b c. a \<in> S \<Longrightarrow> b \<in> S \<Longrightarrow> c \<in> S \<Longrightarrow>
      \<not> positive (cmp a b) \<Longrightarrow> \<not> positive (cmp b c) \<Longrightarrow> \<not> positive (cmp a c)"
    and asym: "\<And>a b. a \<in> S \<Longrightarrow> b \<in> S \<Longrightarrow> positive (cmp a b) \<Longrightarrow> \<not> positive (cmp b a)"
    and "set xs \<subseteq> S"
  shows "sorted_wrt (\<lambda>a b. \<not> positive (cmp a b)) (js_sort cmp xs)"
  using assms(3)
proof (induction xs)
  case Nil
  show ?case by (simp add: js_sort_def)
next
  case (Cons x xs)
  have "sorted_wrt (\<lambda>a b. \<not> positive (cmp a b)) (js_insert cmp x (js_sort cmp xs))"
  proof (rule sorted_js_insert [where S = S])
    show "x \<in> S" using Cons.prems by simp
    show "set (js_sort cmp xs) \<subseteq> S" using Cons.prems by (simp add: set_js_sort)
    show "sorted_wrt (\<lambda>a b. \<not> positive (cmp a b)) (js_sort cmp xs)"
      using Cons by simp
  qed (use trans asym in blast)+
  then show ?case by (simp add: js_sort_def)
qed

subsection \<open>The order of the numbers\<close>

lemma num_less_trans: "num_less a b \<Longrightarrow> num_less b c \<Longrightarrow> num_less a c"
  by (cases a; cases b; cases c) auto

lemma num_less_irrefl: "\<not> num_less a a"
  by (cases a) auto

lemma num_less_asym: "num_less a b \<Longrightarrow> \<not> num_less b a"
  by (cases a; cases b) auto

lemma num_less_total: "a \<noteq> NaN \<Longrightarrow> b \<noteq> NaN \<Longrightarrow> num_less a b \<or> a = b \<or> num_less b a"
  by (cases a; cases b) auto

lemma positive_js_sub: "positive (js_sub a b) \<longleftrightarrow> num_less b a"
  by (cases a; cases b) auto

lemma truthy_js_sub:
  "a \<noteq> NaN \<Longrightarrow> b \<noteq> NaN \<Longrightarrow> (js_sub a b \<noteq> NaN \<and> js_sub a b \<noteq> Fin 0) \<longleftrightarrow> a \<noteq> b"
  by (cases a; cases b) auto

lemma positive_question_cmp:
  assumes "priority_of a \<noteq> NaN" and "priority_of b \<noteq> NaN"
  shows "positive (question_cmp a b) \<longleftrightarrow> question_before b a"
proof -
  have cmp: "question_cmp a b =
      (if priority_of a \<noteq> priority_of b then js_sub (priority_of a) (priority_of b)
       else js_sub (tag_number a) (tag_number b))"
    by (simp add: question_cmp_def priority_of_def [symmetric] tag_number_def [symmetric]
        Let_def truthy_js_sub [OF assms])
  show ?thesis
    by (auto simp: cmp question_before_def positive_js_sub num_less_irrefl)
qed

lemma question_before_trans:
  "question_before a b \<Longrightarrow> question_before b c \<Longrightarrow> question_before a c"
  unfolding question_before_def by (metis num_less_trans)

lemma question_before_asym: "question_before a b \<Longrightarrow> \<not> question_before b a"
  unfolding question_before_def by (metis num_less_asym num_less_irrefl)

lemma question_before_total:
  assumes "priority_of a \<noteq> NaN" "priority_of b \<noteq> NaN"
    and "tag_number a \<noteq> NaN" "tag_number b \<noteq> NaN"
  shows "question_before a b \<or> question_before b a
         \<or> (priority_of a = priority_of b \<and> tag_number a = tag_number b)"
  unfolding question_before_def
  using num_less_total [OF assms(1,2)] num_less_total [OF assms(3,4)] by auto

lemma question_not_before_trans:
  assumes "priority_of a \<noteq> NaN" "priority_of b \<noteq> NaN"
    and "tag_number a \<noteq> NaN" "tag_number b \<noteq> NaN"
    and ba: "\<not> question_before b a" and cb: "\<not> question_before c b"
  shows "\<not> question_before c a"
proof
  assume ca: "question_before c a"
  from question_before_total [OF assms(1-4)] ba
  consider "question_before a b" | "priority_of a = priority_of b" "tag_number a = tag_number b"
    by blast
  then show False
  proof cases
    case 1
    with ca have "question_before c b" by (rule question_before_trans)
    with cb show False by simp
  next
    case 2
    with ca have "question_before c b" by (simp add: question_before_def)
    with cb show False by simp
  qed
qed

text \<open>The sort of the scheduler orders questions whose priorities are numbers other than NaN
  and whose tag identifiers are distinct numbers.\<close>

lemma sorted_questions:
  assumes pri: "\<forall>t \<in> set ts. priority_of t \<noteq> NaN"
    and fin: "\<forall>t \<in> set ts. isFinite (tag_number t)"
    and dist: "distinct (map tag_number ts)"
  shows "sorted_wrt question_before (js_sort question_cmp ts)"
proof -
  let ?S = "{t. priority_of t \<noteq> NaN \<and> tag_number t \<noteq> NaN}"
  let ?qs = "js_sort question_cmp ts"
  have sub: "set ts \<subseteq> ?S"
    using pri fin by auto
  have weak: "sorted_wrt (\<lambda>a b. \<not> positive (question_cmp a b)) ?qs"
  proof (rule sorted_js_sort [where S = ?S])
    fix a b c
    assume "a \<in> ?S" "b \<in> ?S" "c \<in> ?S"
      and "\<not> positive (question_cmp a b)" "\<not> positive (question_cmp b c)"
    then show "\<not> positive (question_cmp a c)"
      using question_not_before_trans [of a b c]
      by (simp add: positive_question_cmp)
  next
    fix a b
    assume "a \<in> ?S" "b \<in> ?S" "positive (question_cmp a b)"
    then show "\<not> positive (question_cmp b a)"
      using question_before_asym [of b a] by (simp add: positive_question_cmp)
  qed (rule sub)
  have dq: "distinct (map tag_number ?qs)"
    using dist by (simp add: distinct_map_js_sort)
  have inS: "set ?qs \<subseteq> ?S"
    using sub by (simp add: set_js_sort)
  have "question_before (?qs ! i) (?qs ! j)" if "i < j" "j < length ?qs" for i j
  proof -
    let ?a = "?qs ! i" and ?b = "?qs ! j"
    have a: "?a \<in> ?S" and b: "?b \<in> ?S"
      using inS that by (auto simp: subset_iff)
    have "\<not> positive (question_cmp ?a ?b)"
      using weak that by (simp add: sorted_wrt_iff_nth_less)
    then have nb: "\<not> question_before ?b ?a"
      using a b by (simp add: positive_question_cmp)
    have "tag_number ?a \<noteq> tag_number ?b"
      using dq that by (simp add: distinct_conv_nth)
    then show ?thesis
      using question_before_total [of ?a ?b] a b nb by auto
  qed
  then show ?thesis
    by (simp add: sorted_wrt_iff_nth_less)
qed

subsection \<open>Pending tags and their questions\<close>

lemma dedupe_loop_keeps:
  assumes "\<forall>t \<in> set ts. isFinite (tag_number t)"
    and "distinct (map tag_number ts)"
    and "tag_number ` set ts \<inter> set seen = {}"
  shows "dedupe_loop seen out ts = out @ ts"
  using assms
proof (induction ts arbitrary: seen out)
  case Nil
  show ?case by simp
next
  case (Cons t ts)
  have "dedupe_loop (seen @ [tag_number t]) (out @ [t]) ts = (out @ [t]) @ ts"
    using Cons.prems by (intro Cons.IH) auto
  then show ?case
    using Cons.prems by (simp add: tag_number_def [symmetric] Let_def)
qed

lemma dedupeByTagId_keeps:
  "\<forall>t \<in> set ts. isFinite (tag_number t) \<Longrightarrow> distinct (map tag_number ts) \<Longrightarrow>
     dedupeByTagId ts = ts"
  using dedupe_loop_keeps [of ts "[]" "[]"] by (simp add: dedupeByTagId_def)

lemma tag_number_nextInfo:
  "map tag_number
     (nextInfo (new_Map (map (\<lambda>t. (js_Number (Tag_ID t), t)) tagsInfo)) pending) = pending"
proof -
  have "tag_number (case new_Map (map (\<lambda>t. (js_Number (Tag_ID t), t)) tagsInfo) tid of
                      Some t \<Rightarrow> t | None \<Rightarrow> synthetic_question tid) = tid" for tid
    using new_Map_Some_mem [of "\<lambda>t. js_Number (Tag_ID t)" tagsInfo tid]
    by (auto simp: tag_number_def synthetic_question_def split: option.splits)
  then show ?thesis
    by (simp add: nextInfo_def comp_def map_idI)
qed

lemma priority_nextInfo:
  assumes "\<forall>t \<in> set tagsInfo. priority_of t \<noteq> NaN"
    and "q \<in> set (nextInfo (new_Map (map (\<lambda>t. (js_Number (Tag_ID t), t)) tagsInfo)) pending)"
  shows "priority_of q \<noteq> NaN"
proof -
  from assms(2) obtain tid where
    q: "q = (case new_Map (map (\<lambda>t. (js_Number (Tag_ID t), t)) tagsInfo) tid of
               Some t \<Rightarrow> t | None \<Rightarrow> synthetic_question tid)"
    by (auto simp: nextInfo_def)
  show ?thesis
  proof (cases "new_Map (map (\<lambda>t. (js_Number (Tag_ID t), t)) tagsInfo) tid")
    case None
    then show ?thesis
      by (simp add: q synthetic_question_def priority_of_def nullish_def)
  next
    case (Some t)
    then have "t \<in> set tagsInfo"
      using new_Map_Some_mem [of "\<lambda>t. js_Number (Tag_ID t)" tagsInfo tid t] by simp
    with assms(1) Some show ?thesis by (simp add: q)
  qed
qed

lemma finite_uniqNums: "t \<in> set (uniqNums arr) \<Longrightarrow> isFinite t"
  by (simp add: set_uniqNums)

lemma set_unresolved_loop:
  "set (unresolved_loop rowsByPc iTags pcs acc) =
     set acc \<union> {t. \<exists>pc \<in> set pcs. \<exists>row. rowsByPc pc = Some row
                      \<and> t \<in> set (uniqNums (map JStr (parseList (cell row iTags))))}"
proof (induction pcs arbitrary: acc)
  case Nil
  show ?case by simp
next
  case (Cons pc pcs)
  show ?case
    by (cases "rowsByPc pc") (auto simp: Cons.IH)
qed

lemma uniqNums_of_numbers:
  "\<forall>t \<in> set xs. isFinite t \<Longrightarrow> set (uniqNums (map JNum xs)) = set xs"
  by (auto simp: set_uniqNums image_image)

lemma distinct_pendingTagIds: "distinct (pendingTagIds assignedTags head rows unresolved)"
  by (simp add: pendingTagIds_def Let_def distinct_uniqNums)

lemma finite_pendingTagIds:
  "t \<in> set (pendingTagIds assignedTags head rows unresolved) \<Longrightarrow> isFinite t"
  by (auto simp: pendingTagIds_def Let_def dest: finite_uniqNums)

lemma set_pendingTagIds:
  assumes "distinct (map (\<lambda>r. js_Number (cell r (findCol_or_first head col_pc_id))) rows)"
  shows "set (pendingTagIds assignedTags head rows unresolved)
           = spec_pending assignedTags head rows unresolved"
proof -
  let ?iPc = "findCol_or_first head col_pc_id"
  let ?iTags = "findCol head col_tags_array"
  let ?m = "new_Map (map (\<lambda>r. (js_Number (cell r ?iPc), r)) rows)"
  let ?U = "unresolved_loop ?m ?iTags unresolved []"
  have row: "?m pc = Some row \<longleftrightarrow> row \<in> set rows \<and> js_Number (cell row ?iPc) = pc" for pc row
    using new_Map_Some_mem [of "\<lambda>r. js_Number (cell r ?iPc)" rows pc row]
      new_Map_distinct [OF assms, of row]
    by auto
  have U: "set ?U = {t. \<exists>row \<in> set rows. js_Number (cell row ?iPc) \<in> set unresolved
                        \<and> t \<in> set (uniqNums (map JStr (parseList (cell row ?iTags))))}"
    by (auto simp: set_unresolved_loop row)
  have "\<forall>t \<in> set ?U. isFinite t"
    by (auto simp: U dest: finite_uniqNums)
  then have "set (uniqNums (map JNum ?U)) = set ?U"
    by (rule uniqNums_of_numbers)
  then show ?thesis
    by (auto simp: pendingTagIds_def spec_pending_def Let_def U set_uniqNums)
qed

lemma returnNextTagQuestions_table:
  "returnNextTagQuestions clauseEval (Some (head # rows)) clausesArr assignedTags tagsArr tagsInfo =
     (let ratio = ratioCompletedTags
            (returnNextTagQuestions clauseEval (Some (head # rows)) clausesArr assignedTags tagsArr
               tagsInfo);
          unresolved = unresolvedClauses clauseEval clausesArr;
          pending = pendingTagIds assignedTags head rows unresolved
      in if unresolved = [] \<or> pending = []
         then \<lparr> status = ''done'', nextQuestions = [], ratioCompletedTags = ratio \<rparr>
         else \<lparr> status = ''ask'',
                nextQuestions =
                  js_sort question_cmp
                    (dedupeByTagId
                       (nextInfo (new_Map (map (\<lambda>t. (js_Number (Tag_ID t), t)) tagsInfo)) pending)),
                ratioCompletedTags = ratio \<rparr>)"
  by (simp add: returnNextTagQuestions_def Let_def)

lemma questions_of_pending:
  fixes tagsInfo pending
  defines "info \<equiv> nextInfo (new_Map (map (\<lambda>t. (js_Number (Tag_ID t), t)) tagsInfo)) pending"
  assumes "distinct pending" and "\<forall>t \<in> set pending. isFinite t"
  shows "tag_number ` set (js_sort question_cmp (dedupeByTagId info)) = set pending"
    and "distinct (map tag_number (js_sort question_cmp (dedupeByTagId info)))"
    and "length (js_sort question_cmp (dedupeByTagId info)) = length pending"
    and "(\<forall>t \<in> set tagsInfo. priority_of t \<noteq> NaN) \<Longrightarrow>
           sorted_wrt question_before (js_sort question_cmp (dedupeByTagId info))"
proof -
  have num: "map tag_number info = pending"
    unfolding info_def by (rule tag_number_nextInfo)
  have fin: "\<forall>t \<in> set info. isFinite (tag_number t)"
    using assms(3) arg_cong [OF num, of set] by auto
  have dist: "distinct (map tag_number info)"
    using assms(2) by (simp add: num)
  have keep: "dedupeByTagId info = info"
    using fin dist by (rule dedupeByTagId_keeps)
  show "tag_number ` set (js_sort question_cmp (dedupeByTagId info)) = set pending"
    using arg_cong [OF num, of set] by (simp add: keep set_js_sort)
  show "distinct (map tag_number (js_sort question_cmp (dedupeByTagId info)))"
    using dist by (simp add: keep distinct_map_js_sort)
  show "length (js_sort question_cmp (dedupeByTagId info)) = length pending"
    using arg_cong [OF num, of length] by (simp add: keep length_js_sort)
  show "sorted_wrt question_before (js_sort question_cmp (dedupeByTagId info))"
    if "\<forall>t \<in> set tagsInfo. priority_of t \<noteq> NaN"
  proof -
    have "\<forall>t \<in> set info. priority_of t \<noteq> NaN"
      unfolding info_def using priority_nextInfo [OF that] by blast
    then show ?thesis
      using fin dist by (simp add: keep sorted_questions)
  qed
qed
text \<open>
  \<^bold>\<open>C4, for a clause table with a header row.\<close> The PC_IDs being unique, the status is \<open>done\<close>
  exactly when no clause of the universe has the verdict 0 or no tag is pending; and when the
  status is \<open>ask\<close>, some tag is pending and the questions are not empty: there is one
  question for each pending tag, their Tag_IDs are pairwise distinct numbers, and, provided no
  priority of the catalog is NaN, they are sorted by priority ascending, a missing priority
  last, then by Tag_ID ascending.
\<close>

theorem scheduler_status:
  assumes "distinct (map (\<lambda>r. js_Number (cell r (findCol_or_first head col_pc_id))) rows)"
  shows "(let res = returnNextTagQuestions clauseEval (Some (head # rows)) clausesArr assignedTags
                      tagsArr tagsInfo;
              unresolved = unresolvedClauses clauseEval clausesArr;
              pending = spec_pending assignedTags head rows unresolved
          in (status res = ''done'' \<longleftrightarrow> unresolved = [] \<or> pending = {})
             \<and> (status res = ''ask'' \<longrightarrow>
                  pending \<noteq> {} \<and> nextQuestions res \<noteq> []
                  \<and> tag_number ` set (nextQuestions res) = pending
                  \<and> distinct (map tag_number (nextQuestions res))
                  \<and> ((\<forall>t \<in> set tagsInfo. priority_of t \<noteq> NaN) \<longrightarrow>
                        sorted_wrt question_before (nextQuestions res))))"
proof -
  let ?unres = "unresolvedClauses clauseEval clausesArr"
  let ?pend = "pendingTagIds assignedTags head rows ?unres"
  let ?res = "returnNextTagQuestions clauseEval (Some (head # rows)) clausesArr assignedTags
                tagsArr tagsInfo"
  have spec: "set ?pend = spec_pending assignedTags head rows ?unres"
    by (rule set_pendingTagIds [OF assms])
  then have empty: "?pend = [] \<longleftrightarrow> spec_pending assignedTags head rows ?unres = {}"
    by (metis set_empty)
  show ?thesis
  proof (cases "?unres = [] \<or> ?pend = []")
    case True
    then have "status ?res = ''done''"
      by (subst returnNextTagQuestions_table) (simp add: Let_def)
    then show ?thesis
      using True empty by (simp add: Let_def)
  next
    case False
    let ?qs = "js_sort question_cmp
                 (dedupeByTagId
                    (nextInfo (new_Map (map (\<lambda>t. (js_Number (Tag_ID t), t)) tagsInfo)) ?pend))"
    from False have st: "status ?res = ''ask''" and qs: "nextQuestions ?res = ?qs"
      by (subst returnNextTagQuestions_table, simp add: Let_def)+
    have d: "distinct ?pend"
      by (rule distinct_pendingTagIds)
    have f: "\<forall>t \<in> set ?pend. isFinite t"
      by (auto dest: finite_pendingTagIds)
    note q = questions_of_pending [OF d f, of tagsInfo]
    have "?qs \<noteq> []"
      using q(3) False by auto
    then show ?thesis
      using False empty st q(1,2,4) by (simp add: Let_def qs spec)
  qed
qed

lemma clause_rows_tags:
  "map (\<lambda>r. uniqNums (map JStr (parseList (cell r 3)))) clause_rows
     = [[Fin 10], [Fin 20], [], [Fin 10, Fin 20, Fin 99]]"
  by (simp add: clause_rows_def cell_def parseList_def uniqNums_def new_Set_def set_add_def
      number_eval string_eval positive_to_string_20)

lemma example_rowsByPc:
  "new_Map (map (\<lambda>r. (js_Number (cell r 0), r)) clause_rows) (Fin 1) = Some (clause_rows ! 0)"
  "new_Map (map (\<lambda>r. (js_Number (cell r 0), r)) clause_rows) (Fin 4) = Some (clause_rows ! 3)"
proof -
  have d: "distinct (map (\<lambda>r. js_Number (cell r 0)) clause_rows)"
    by (simp add: clause_rows_pc)
  have pc: "js_Number (cell (clause_rows ! 0) 0) = Fin 1"
    "js_Number (cell (clause_rows ! 3) 0) = Fin 4"
    using arg_cong [OF clause_rows_pc, of "\<lambda>xs. xs ! 0"]
      arg_cong [OF clause_rows_pc, of "\<lambda>xs. xs ! 3"]
    by (simp_all add: clause_rows_def)
  have m: "clause_rows ! 0 \<in> set clause_rows" "clause_rows ! 3 \<in> set clause_rows"
    by (simp_all add: clause_rows_def)
  show "new_Map (map (\<lambda>r. (js_Number (cell r 0), r)) clause_rows) (Fin 1)
          = Some (clause_rows ! 0)"
    using new_Map_distinct [OF d m(1)] by (simp only: pc)
  show "new_Map (map (\<lambda>r. (js_Number (cell r 0), r)) clause_rows) (Fin 4)
          = Some (clause_rows ! 3)"
    using new_Map_distinct [OF d m(2)] by (simp only: pc)
qed

lemma example_pending:
  "pendingTagIds truth_no20 clause_head clause_rows [Fin 1, Fin 4] = [Fin 10, Fin 99]"
proof -
  have t: "uniqNums (map JStr (parseList (cell (clause_rows ! 0) 3))) = [Fin 10]"
    "uniqNums (map JStr (parseList (cell (clause_rows ! 3) 3))) = [Fin 10, Fin 20, Fin 99]"
    using arg_cong [OF clause_rows_tags, of "\<lambda>xs. xs ! 0"]
      arg_cong [OF clause_rows_tags, of "\<lambda>xs. xs ! 3"]
    by (simp_all add: clause_rows_def)
  have o: "uniqNums [JNum (Fin 10), JNum (Fin 10), JNum (Fin 20), JNum (Fin 99)]
             = [Fin 10, Fin 20, Fin 99]"
    by (simp add: uniqNums_def new_Set_def set_add_def)
  show ?thesis
    by (simp add: pendingTagIds_def clause_head_cols example_rowsByPc t o Let_def obj_get_def
        truth_no20_def)
qed

lemma example_questions:
  "map tag_number
     (nextQuestions
        (returnNextTagQuestions verdicts_1_4_open (Some (clause_head # clause_rows))
           [Fin 1, Fin 2, Fin 3, Fin 4] truth_no20 [Fin 10, Fin 20, Fin 99] tag_catalog))
     = [Fin 99, Fin 10]"
proof -
  have u: "unresolvedClauses verdicts_1_4_open [Fin 1, Fin 2, Fin 3, Fin 4] = [Fin 1, Fin 4]"
    by (simp add: unresolvedClauses_def verdicts_1_4_open_def obj_get_def)
  show ?thesis
    by (subst returnNextTagQuestions_table)
      (simp add: Let_def u example_pending nextInfo_def new_Map_def tag_catalog_def
        dedupeByTagId_def js_sort_def question_cmp_def nullish_def tag_number_def)
qed

theorem scheduler_status_witness:
  "distinct (map (\<lambda>r. js_Number (cell r (findCol_or_first clause_head col_pc_id))) clause_rows)
   \<and> list_all (\<lambda>t. priority_of t \<noteq> NaN) tag_catalog
   \<and> status (returnNextTagQuestions verdicts_1_4_open (Some (clause_head # clause_rows))
        [Fin 1, Fin 2, Fin 3, Fin 4] truth_no20 [Fin 10, Fin 20, Fin 99] tag_catalog) = ''ask''
   \<and> spec_pending truth_no20 clause_head clause_rows
        (unresolvedClauses verdicts_1_4_open [Fin 1, Fin 2, Fin 3, Fin 4]) = {Fin 10, Fin 99}
   \<and> map tag_number
        (nextQuestions
           (returnNextTagQuestions verdicts_1_4_open (Some (clause_head # clause_rows))
              [Fin 1, Fin 2, Fin 3, Fin 4] truth_no20 [Fin 10, Fin 20, Fin 99] tag_catalog))
       = [Fin 99, Fin 10]
   \<and> sorted_wrt question_before
        (nextQuestions
           (returnNextTagQuestions verdicts_1_4_open (Some (clause_head # clause_rows))
              [Fin 1, Fin 2, Fin 3, Fin 4] truth_no20 [Fin 10, Fin 20, Fin 99] tag_catalog))"
proof -
  let ?res = "returnNextTagQuestions verdicts_1_4_open (Some (clause_head # clause_rows))
                [Fin 1, Fin 2, Fin 3, Fin 4] truth_no20 [Fin 10, Fin 20, Fin 99] tag_catalog"
  have d: "distinct (map (\<lambda>r. js_Number (cell r (findCol_or_first clause_head col_pc_id)))
             clause_rows)"
    by (simp add: clause_head_cols clause_rows_pc)
  have p: "\<forall>t \<in> set tag_catalog. priority_of t \<noteq> NaN"
    by (simp add: tag_catalog_def priority_of_def nullish_def)
  have q: "map tag_number (nextQuestions ?res) = [Fin 99, Fin 10]"
    by (rule example_questions)
  then have ne: "nextQuestions ?res \<noteq> []"
    by auto
  note th = scheduler_status [OF d, of verdicts_1_4_open "[Fin 1, Fin 2, Fin 3, Fin 4]"
      truth_no20 "[Fin 10, Fin 20, Fin 99]" tag_catalog, unfolded Let_def]
  have st: "status ?res = ''ask''"
    by (subst returnNextTagQuestions_table)
      (simp add: Let_def unresolvedClauses_def verdicts_1_4_open_def obj_get_def example_pending
        [unfolded truth_no20_def] truth_no20_def)
  have pend: "spec_pending truth_no20 clause_head clause_rows
      (unresolvedClauses verdicts_1_4_open [Fin 1, Fin 2, Fin 3, Fin 4]) = {Fin 10, Fin 99}"
    using th st arg_cong [OF q, of set] by auto
  have sorted: "sorted_wrt question_before (nextQuestions ?res)"
    using th st p by blast
  have p': "list_all (\<lambda>t. priority_of t \<noteq> NaN) tag_catalog"
    using p by (simp add: list_all_iff)
  show ?thesis
    using d p' st pend q sorted by (intro conjI)
qed

text \<open>
  \<^bold>\<open>C4, as the specification words it,\<close> fails when the clause table is empty or absent: a
  clause of the universe has the verdict 0, no tag can be pending, and yet the status is
  \<open>ask\<close>, with no question.
\<close>

theorem scheduler_counterexample:
  "status (returnNextTagQuestions [(Fin 1, JNum (Fin 0))] (Some []) [Fin 1] [] [] []) = ''ask''
   \<and> nextQuestions (returnNextTagQuestions [(Fin 1, JNum (Fin 0))] (Some []) [Fin 1] [] [] []) = []"
  by (simp add: returnNextTagQuestions_def unresolvedClauses_def obj_get_def Let_def)

text \<open>Without a clause table, an unresolved clause always gives the status \<open>ask\<close> and no
  question.\<close>

lemma ask_without_table:
  assumes "unresolvedClauses clauseEval clausesArr \<noteq> []"
    and "filteredClausesTable = None \<or> filteredClausesTable = Some []"
  shows "status (returnNextTagQuestions clauseEval filteredClausesTable clausesArr assignedTags
                   tagsArr tagsInfo) = ''ask''
    \<and> nextQuestions (returnNextTagQuestions clauseEval filteredClausesTable clausesArr
                        assignedTags tagsArr tagsInfo) = []"
  using assms by (auto simp: returnNextTagQuestions_def Let_def)

subsection \<open>Priorities that are missing or zero\<close>

lemma questions_sorted:
  assumes "\<forall>t \<in> set tagsInfo. priority_of t \<noteq> NaN"
  shows "sorted_wrt question_before
           (nextQuestions
              (returnNextTagQuestions clauseEval filteredClausesTable clausesArr assignedTags
                 tagsArr tagsInfo))"
proof -
  have header: "sorted_wrt question_before
      (nextQuestions
         (returnNextTagQuestions clauseEval (Some (head # rows)) clausesArr assignedTags tagsArr
            tagsInfo))" for head rows
  proof -
    let ?pend = "pendingTagIds assignedTags head rows (unresolvedClauses clauseEval clausesArr)"
    have d: "distinct ?pend"
      by (rule distinct_pendingTagIds)
    have f: "\<forall>t \<in> set ?pend. isFinite t"
      by (auto dest: finite_pendingTagIds)
    show ?thesis
      using questions_of_pending(4) [OF d f assms]
      by (subst returnNextTagQuestions_table) (simp add: Let_def)
  qed
  show ?thesis
  proof (cases filteredClausesTable)
    case None
    then show ?thesis by (simp add: returnNextTagQuestions_def Let_def)
  next
    case (Some t)
    then show ?thesis
      using header by (cases t) (simp_all add: returnNextTagQuestions_def [of _ "Some []"] Let_def)
  qed
qed

lemma example_shaped:
  "shapeTagsInfo (Some (tag_head # tag_rows)) =
     [\<lparr> Tag_ID = JNum (Fin 10), Tag_Category = JStr '''', Priority = JNum (Fin 2),
        Question = JStr ''Is it leased?'', Entry_Type = JStr ''Radio'',
        Entry_Category = JStr ''Bool'', Helper_Text = JStr '''' \<rparr>,
      \<lparr> Tag_ID = JNum (Fin 20), Tag_Category = JStr '''', Priority = JNum PosInf,
        Question = JStr ''Any pets?'', Entry_Type = JStr ''Radio'',
        Entry_Category = JStr ''bool'', Helper_Text = JStr '''' \<rparr>,
      \<lparr> Tag_ID = JNum (Fin 30), Tag_Category = JStr '''', Priority = JNum PosInf,
        Question = JStr ''Tenant'', Entry_Type = JStr ''No Display'',
        Entry_Category = JStr ''Name'', Helper_Text = JStr '''' \<rparr>,
      \<lparr> Tag_ID = JNum (Fin 40), Tag_Category = JStr '''', Priority = JNum (Fin 1),
        Question = JStr ''Term'', Entry_Type = JStr ''Text'',
        Entry_Category = JStr ''Text'', Helper_Text = JStr '''' \<rparr>]"
  by (simp add: shapeTagsInfo_def tag_head_cols Let_def)
    (simp add: tag_rows_def cell_def toNum_def js_or_def number_eval string_eval)

text \<open>
  \<^bold>\<open>C9, for catalogs without NaN priorities.\<close> In a Tag table that has a priority column,
  a row whose Priority cell is falsy --
  the number 0, the empty string, an empty cell -- is shaped with the priority Infinity. The
  comparator of the scheduler puts such a tag after every tag with a finite priority, whatever
  their Tag_IDs, and so does the scheduler: in the questions it returns for a catalog without
  NaN priorities, every question with a finite priority stands before the tag.
\<close>

theorem falsy_priority_last:
  assumes "findCol head col_priority \<noteq> - 1"
    and "i < length rows"
    and "\<not> truthy (cell (rows ! i) (findCol head col_priority))"
  shows "(let t = shapeTagsInfo (Some (head # rows)) ! i
          in Priority t = JNum PosInf
             \<and> (\<forall>b. isFinite (priority_of b) \<longrightarrow>
                    positive (question_cmp t b) \<and> \<not> positive (question_cmp b t))
             \<and> (\<forall>clauseEval filteredClausesTable clausesArr assignedTags tagsArr tagsInfo b.
                    (\<forall>q \<in> set tagsInfo. priority_of q \<noteq> NaN)
                    \<and> t \<in> set (nextQuestions (returnNextTagQuestions clauseEval
                          filteredClausesTable clausesArr assignedTags tagsArr tagsInfo))
                    \<and> b \<in> set (nextQuestions (returnNextTagQuestions clauseEval
                          filteredClausesTable clausesArr assignedTags tagsArr tagsInfo))
                    \<and> isFinite (priority_of b) \<longrightarrow>
                    (\<exists>j k. j < k
                       \<and> k < length (nextQuestions (returnNextTagQuestions clauseEval
                             filteredClausesTable clausesArr assignedTags tagsArr tagsInfo))
                       \<and> nextQuestions (returnNextTagQuestions clauseEval filteredClausesTable
                             clausesArr assignedTags tagsArr tagsInfo) ! j = b
                       \<and> nextQuestions (returnNextTagQuestions clauseEval filteredClausesTable
                             clausesArr assignedTags tagsArr tagsInfo) ! k = t)))"
proof -
  let ?t = "shapeTagsInfo (Some (head # rows)) ! i"
  have pri: "Priority ?t = JNum PosInf"
    using assms by (simp add: shapeTagsInfo_def Let_def js_or_def)
  then have inf: "priority_of ?t = PosInf"
    by (simp add: priority_of_def nullish_def)
  have cmp: "positive (question_cmp ?t b) \<and> \<not> positive (question_cmp b ?t)"
    if fb: "isFinite (priority_of b)" for b
  proof -
    obtain q where q: "priority_of b = Fin q"
      using fb by (cases "priority_of b") auto
    have "question_before b ?t"
      by (simp add: question_before_def inf q)
    moreover have "\<not> question_before ?t b"
      by (simp add: question_before_def inf q)
    ultimately show ?thesis
      by (simp add: positive_question_cmp inf q)
  qed
  have order: "\<exists>j k. j < k \<and> k < length qs \<and> qs ! j = b \<and> qs ! k = ?t"
    if s: "sorted_wrt question_before qs" and t: "?t \<in> set qs" and b: "b \<in> set qs"
      and fin: "isFinite (priority_of b)" for qs b
  proof -
    obtain q where q: "priority_of b = Fin q"
      using fin by (cases "priority_of b") auto
    from t obtain k where k: "k < length qs" "qs ! k = ?t"
      by (auto simp: in_set_conv_nth)
    from b obtain j where j: "j < length qs" "qs ! j = b"
      by (auto simp: in_set_conv_nth)
    have "j \<noteq> k"
      using j k inf q by auto
    moreover have "\<not> k < j"
    proof
      assume "k < j"
      then have "question_before (qs ! k) (qs ! j)"
        using s j(1) by (simp add: sorted_wrt_iff_nth_less)
      then show False
        by (simp add: k j question_before_def inf q)
    qed
    ultimately have "j < k" by simp
    then show ?thesis using j k by blast
  qed
  show ?thesis
    unfolding Let_def
  proof (intro conjI)
    show "Priority ?t = JNum PosInf"
      by (rule pri)
    show "\<forall>b. isFinite (priority_of b) \<longrightarrow>
            positive (question_cmp ?t b) \<and> \<not> positive (question_cmp b ?t)"
      using cmp by blast
  qed (intro allI impI, elim conjE, rule order, rule questions_sorted, assumption+)
qed
lemma example_pending_unanswered:
  "pendingTagIds [] clause_head clause_rows [Fin 1, Fin 4] = [Fin 10, Fin 20, Fin 99]"
proof -
  have t: "uniqNums (map JStr (parseList (cell (clause_rows ! 0) 3))) = [Fin 10]"
    "uniqNums (map JStr (parseList (cell (clause_rows ! 3) 3))) = [Fin 10, Fin 20, Fin 99]"
    using arg_cong [OF clause_rows_tags, of "\<lambda>xs. xs ! 0"]
      arg_cong [OF clause_rows_tags, of "\<lambda>xs. xs ! 3"]
    by (simp_all add: clause_rows_def)
  have o: "uniqNums [JNum (Fin 10), JNum (Fin 10), JNum (Fin 20), JNum (Fin 99)]
             = [Fin 10, Fin 20, Fin 99]"
    by (simp add: uniqNums_def new_Set_def set_add_def)
  show ?thesis
    by (simp add: pendingTagIds_def clause_head_cols example_rowsByPc t o Let_def obj_get_def)
qed

lemma example_questions_unanswered:
  "nextQuestions
     (returnNextTagQuestions verdicts_1_4_open (Some (clause_head # clause_rows))
        [Fin 1, Fin 2, Fin 3, Fin 4] [] [Fin 10, Fin 20, Fin 99]
        (shapeTagsInfo (Some (tag_head # tag_rows))))
   = [shapeTagsInfo (Some (tag_head # tag_rows)) ! 0,
      shapeTagsInfo (Some (tag_head # tag_rows)) ! 1,
      synthetic_question (Fin 99)]"
proof -
  have u: "unresolvedClauses verdicts_1_4_open [Fin 1, Fin 2, Fin 3, Fin 4] = [Fin 1, Fin 4]"
    by (simp add: unresolvedClauses_def verdicts_1_4_open_def obj_get_def)
  have s: "Tag_ID (synthetic_question (Fin 99)) = JNum (Fin 99)"
    "Priority (synthetic_question (Fin 99)) = JNum PosInf"
    by (simp_all add: synthetic_question_def)
  show ?thesis
    by (subst returnNextTagQuestions_table)
      (simp add: Let_def u example_pending_unanswered nextInfo_def new_Map_def example_shaped
        dedupeByTagId_def js_sort_def question_cmp_def nullish_def s)
qed

theorem falsy_priority_last_witness:
  "findCol tag_head col_priority \<noteq> - 1
   \<and> 1 < length tag_rows
   \<and> \<not> truthy (cell (tag_rows ! 1) (findCol tag_head col_priority))
   \<and> Priority (shapeTagsInfo (Some (tag_head # tag_rows)) ! 1) = JNum PosInf
   \<and> positive (question_cmp (shapeTagsInfo (Some (tag_head # tag_rows)) ! 1)
                            (shapeTagsInfo (Some (tag_head # tag_rows)) ! 0))
   \<and> (\<exists>j k. j < k
         \<and> k < length (nextQuestions
                 (returnNextTagQuestions verdicts_1_4_open (Some (clause_head # clause_rows))
                    [Fin 1, Fin 2, Fin 3, Fin 4] [] [Fin 10, Fin 20, Fin 99]
                    (shapeTagsInfo (Some (tag_head # tag_rows)))))
         \<and> nextQuestions
               (returnNextTagQuestions verdicts_1_4_open (Some (clause_head # clause_rows))
                  [Fin 1, Fin 2, Fin 3, Fin 4] [] [Fin 10, Fin 20, Fin 99]
                  (shapeTagsInfo (Some (tag_head # tag_rows)))) ! j
             = shapeTagsInfo (Some (tag_head # tag_rows)) ! 0
         \<and> nextQuestions
               (returnNextTagQuestions verdicts_1_4_open (Some (clause_head # clause_rows))
                  [Fin 1, Fin 2, Fin 3, Fin 4] [] [Fin 10, Fin 20, Fin 99]
                  (shapeTagsInfo (Some (tag_head # tag_rows)))) ! k
             = shapeTagsInfo (Some (tag_head # tag_rows)) ! 1)"
proof -
  let ?shaped = "shapeTagsInfo (Some (tag_head # tag_rows))"
  let ?qs = "nextQuestions
               (returnNextTagQuestions verdicts_1_4_open (Some (clause_head # clause_rows))
                  [Fin 1, Fin 2, Fin 3, Fin 4] [] [Fin 10, Fin 20, Fin 99] ?shaped)"
  have h1: "findCol tag_head col_priority \<noteq> - 1"
    by (simp add: tag_head_cols)
  have h2: "1 < length tag_rows"
    by (simp add: tag_rows_def)
  have h3: "\<not> truthy (cell (tag_rows ! 1) (findCol tag_head col_priority))"
    by (simp add: tag_head_cols tag_rows_def cell_def)
  note th = falsy_priority_last [OF h1 h2 h3, unfolded Let_def]
  have fin: "isFinite (priority_of (?shaped ! 0))"
    by (simp add: example_shaped priority_of_def nullish_def)
  have nonan: "\<forall>q \<in> set ?shaped. priority_of q \<noteq> NaN"
    by (simp add: example_shaped priority_of_def nullish_def)
  have mem: "?shaped ! 1 \<in> set ?qs" "?shaped ! 0 \<in> set ?qs"
    by (simp_all add: example_questions_unanswered)
  have a: "Priority (?shaped ! 1) = JNum PosInf"
    using th by (rule conjunct1)
  have b: "positive (question_cmp (?shaped ! 1) (?shaped ! 0))"
    using th [THEN conjunct2, THEN conjunct1, rule_format, OF fin] by (rule conjunct1)
  have c: "\<exists>j k. j < k \<and> k < length ?qs \<and> ?qs ! j = ?shaped ! 0 \<and> ?qs ! k = ?shaped ! 1"
    by (rule th [THEN conjunct2, THEN conjunct2, rule_format]) (intro conjI nonan mem fin)
  show ?thesis
    using h1 h2 h3 a b c by (intro conjI)
qed

lemma mixed_tag_head_cols:
  "findCol_or_first mixed_tag_head col_tag_id = 0"
  "findCol mixed_tag_head col_priority = 1"
  "findCol mixed_tag_head col_tag_category = - 1"
  "findCol mixed_tag_head col_question = - 1"
  "findCol mixed_tag_head col_entry_type = - 1"
  "findCol mixed_tag_head col_entry_category = - 1"
  "findCol mixed_tag_head col_helper_text = - 1"
  by (simp_all add: findCol_or_first_def findCol_def mixed_tag_head_def column_defs string_eval)

lemma one_clause_head_cols:
  "findCol_or_first one_clause_head col_pc_id = 0"
  "findCol one_clause_head col_tags_array = 1"
  by (simp_all add: findCol_or_first_def findCol_def one_clause_head_def column_defs string_eval)

lemma mixed_shaped:
  "shapeTagsInfo (Some (mixed_tag_head # mixed_tag_rows)) =
     [\<lparr> Tag_ID = JNum (Fin 1), Tag_Category = JStr '''', Priority = JNum PosInf,
        Question = JStr '''', Entry_Type = JStr ''Text'',
        Entry_Category = JStr '''', Helper_Text = JStr '''' \<rparr>,
      \<lparr> Tag_ID = JNum (Fin 2), Tag_Category = JStr '''', Priority = JNum NaN,
        Question = JStr '''', Entry_Type = JStr ''Text'',
        Entry_Category = JStr '''', Helper_Text = JStr '''' \<rparr>,
      \<lparr> Tag_ID = JNum (Fin 3), Tag_Category = JStr '''', Priority = JNum (Fin 5),
        Question = JStr '''', Entry_Type = JStr ''Text'',
        Entry_Category = JStr '''', Helper_Text = JStr '''' \<rparr>]"
  by (simp add: shapeTagsInfo_def mixed_tag_head_cols Let_def)
    (simp add: mixed_tag_rows_def cell_def toNum_def js_or_def number_eval string_eval)

lemma mixed_pending:
  "pendingTagIds [] one_clause_head one_clause_rows [Fin 1] = [Fin 1, Fin 2, Fin 3]"
proof -
  have t: "uniqNums (map JStr (parseList (JStr ''1,2,3''))) = [Fin 1, Fin 2, Fin 3]"
    by (simp add: parseList_def uniqNums_def new_Set_def set_add_def number_eval string_eval)
  have o: "uniqNums [JNum (Fin 1), JNum (Fin 2), JNum (Fin 3)] = [Fin 1, Fin 2, Fin 3]"
    by (simp add: uniqNums_def new_Set_def set_add_def)
  show ?thesis
    by (simp add: pendingTagIds_def one_clause_head_cols one_clause_rows_def new_Map_def
        cell_def t o Let_def obj_get_def)
qed

lemma mixed_questions:
  "nextQuestions
     (returnNextTagQuestions [(Fin 1, JNum (Fin 0))] (Some (one_clause_head # one_clause_rows))
        [Fin 1] [] [Fin 1, Fin 2, Fin 3] (shapeTagsInfo (Some (mixed_tag_head # mixed_tag_rows))))
   = shapeTagsInfo (Some (mixed_tag_head # mixed_tag_rows))"
proof -
  have u: "unresolvedClauses [(Fin 1, JNum (Fin 0))] [Fin 1] = [Fin 1]"
    by (simp add: unresolvedClauses_def obj_get_def)
  show ?thesis
    by (subst returnNextTagQuestions_table)
      (simp add: Let_def u mixed_pending nextInfo_def new_Map_def mixed_shaped
        dedupeByTagId_def js_sort_def question_cmp_def nullish_def)
qed

text \<open>
  \<^bold>\<open>C9, as it is worded,\<close> fails when another Priority cell of the table is not numeric.
  With the Priority cells 0, \<open>high\<close> and 5 for the tags 1, 2 and 3, tag 1 is shaped with the
  priority Infinity and tag 2 with NaN; every comparison with tag 2 falls through to the
  Tag_IDs, so each tag compares after its predecessor, the array counts as sorted, and the
  scheduler returns tag 1 first, before tag 3 of priority 5.
\<close>

theorem falsy_priority_counterexample:
  "findCol mixed_tag_head col_priority = 1
   \<and> cell (mixed_tag_rows ! 0) 1 = JNum (Fin 0)
   \<and> Priority (shapeTagsInfo (Some (mixed_tag_head # mixed_tag_rows)) ! 0) = JNum PosInf
   \<and> priority_of (shapeTagsInfo (Some (mixed_tag_head # mixed_tag_rows)) ! 2) = Fin 5
   \<and> positive (question_cmp (shapeTagsInfo (Some (mixed_tag_head # mixed_tag_rows)) ! 1)
                            (shapeTagsInfo (Some (mixed_tag_head # mixed_tag_rows)) ! 0))
   \<and> positive (question_cmp (shapeTagsInfo (Some (mixed_tag_head # mixed_tag_rows)) ! 2)
                            (shapeTagsInfo (Some (mixed_tag_head # mixed_tag_rows)) ! 1))
   \<and> map tag_number
        (nextQuestions
           (returnNextTagQuestions [(Fin 1, JNum (Fin 0))]
              (Some (one_clause_head # one_clause_rows)) [Fin 1] [] [Fin 1, Fin 2, Fin 3]
              (shapeTagsInfo (Some (mixed_tag_head # mixed_tag_rows)))))
       = [Fin 1, Fin 2, Fin 3]"
proof -
  have a: "findCol mixed_tag_head col_priority = 1"
    by (rule mixed_tag_head_cols)
  have b: "cell (mixed_tag_rows ! 0) 1 = JNum (Fin 0)"
    by (simp add: mixed_tag_rows_def cell_def)
  have c: "Priority (shapeTagsInfo (Some (mixed_tag_head # mixed_tag_rows)) ! 0) = JNum PosInf"
    by (simp add: mixed_shaped)
  have d: "priority_of (shapeTagsInfo (Some (mixed_tag_head # mixed_tag_rows)) ! 2) = Fin 5"
    by (simp add: mixed_shaped priority_of_def nullish_def)
  have e: "positive (question_cmp (shapeTagsInfo (Some (mixed_tag_head # mixed_tag_rows)) ! 1)
                            (shapeTagsInfo (Some (mixed_tag_head # mixed_tag_rows)) ! 0))"
    by (simp add: mixed_shaped question_cmp_def nullish_def)
  have f: "positive (question_cmp (shapeTagsInfo (Some (mixed_tag_head # mixed_tag_rows)) ! 2)
                            (shapeTagsInfo (Some (mixed_tag_head # mixed_tag_rows)) ! 1))"
    by (simp add: mixed_shaped question_cmp_def nullish_def)
  have g: "map tag_number
        (nextQuestions
           (returnNextTagQuestions [(Fin 1, JNum (Fin 0))]
              (Some (one_clause_head # one_clause_rows)) [Fin 1] [] [Fin 1, Fin 2, Fin 3]
              (shapeTagsInfo (Some (mixed_tag_head # mixed_tag_rows)))))
       = [Fin 1, Fin 2, Fin 3]"
    by (simp only: mixed_questions) (simp add: mixed_shaped tag_number_def)
  show ?thesis
    using a b c d e f g by (intro conjI)
qed

section \<open>The resolved clause and tag sets\<close>

lemma not_after_trans:
  assumes "a \<noteq> NaN" "b \<noteq> NaN"
    and "\<not> num_less b a" and "\<not> num_less c b"
  shows "\<not> num_less c a"
  using num_less_total [OF assms(1,2)] assms(3,4) num_less_trans by blast

lemma sorted_numbers:
  assumes fin: "\<forall>x \<in> set xs. isFinite x" and dist: "distinct xs"
  shows "sorted_wrt num_less (js_sort js_sub xs)"
proof -
  let ?S = "{x. x \<noteq> NaN}"
  let ?ys = "js_sort js_sub xs"
  have sub: "set xs \<subseteq> ?S"
    using fin by auto
  have weak: "sorted_wrt (\<lambda>a b. \<not> positive (js_sub a b)) ?ys"
  proof (rule sorted_js_sort [where S = ?S])
    fix a b c
    assume "a \<in> ?S" "b \<in> ?S" "c \<in> ?S"
      and "\<not> positive (js_sub a b)" "\<not> positive (js_sub b c)"
    then show "\<not> positive (js_sub a c)"
      using not_after_trans [of a b c] by (simp add: positive_js_sub)
  next
    fix a b
    assume "positive (js_sub a b)"
    then show "\<not> positive (js_sub b a)"
      using num_less_asym [of b a] by (simp add: positive_js_sub)
  qed (rule sub)
  have dy: "distinct ?ys"
    using dist distinct_map_js_sort [of id js_sub xs] by simp
  have ny: "set ?ys \<subseteq> ?S"
    using sub by (simp add: set_js_sort)
  have "num_less (?ys ! i) (?ys ! j)" if "i < j" "j < length ?ys" for i j
  proof -
    have a: "?ys ! i \<noteq> NaN" and b: "?ys ! j \<noteq> NaN"
      using ny that by (auto simp: subset_iff)
    have "\<not> positive (js_sub (?ys ! i) (?ys ! j))"
      using weak that by (simp add: sorted_wrt_iff_nth_less)
    then have "\<not> num_less (?ys ! j) (?ys ! i)"
      by (simp add: positive_js_sub)
    moreover have "?ys ! i \<noteq> ?ys ! j"
      using dy that by (simp add: nth_eq_iff_index_eq)
    ultimately show ?thesis
      using num_less_total [OF a b] by auto
  qed
  then show ?thesis
    by (simp add: sorted_wrt_iff_nth_less)
qed

lemma sorted_uniq_numbers:
  assumes "\<forall>x \<in> set xs. isFinite x"
  shows "sorted_wrt num_less (js_sort js_sub (uniqNums (map JNum xs)))"
    and "set (js_sort js_sub (uniqNums (map JNum xs))) = set xs"
proof -
  show "sorted_wrt num_less (js_sort js_sub (uniqNums (map JNum xs)))"
    by (rule sorted_numbers) (auto simp: distinct_uniqNums dest: finite_uniqNums)
  show "set (js_sort js_sub (uniqNums (map JNum xs))) = set xs"
    by (simp add: set_js_sort uniqNums_of_numbers [OF assms])
qed

lemma fst_collect_vars:
  "fst (collect_vars vRows iObj iVType iAssoc names (clauseIds, missingVars)) =
     clauseIds @ concat (map (\<lambda>name.
        concat (map (\<lambda>r. uniqNums (map JStr (parseList (cell r iAssoc))))
                  (var_matches vRows iObj iVType name))) names)"
  by (induction names arbitrary: clauseIds missingVars) (simp_all add: Let_def)

lemma set_collect_tags:
  "set (collect_tags clauseMap iTags pcs acc) =
     set acc \<union> {t. \<exists>pc \<in> set pcs. \<exists>row. clauseMap pc = Some row
                      \<and> t \<in> set (uniqNums (map JStr (parseList (cell row iTags))))}"
proof (induction pcs arbitrary: acc)
  case Nil
  show ?case by simp
next
  case (Cons pc pcs)
  show ?case
    by (cases "clauseMap pc") (auto simp: Cons.IH)
qed

lemma resolve_found:
  assumes "find (\<lambda>r. canon (cell r (findCol tHead col_name)) = canon templateName) tRows
             = Some tRow"
  shows "getTagsAndClausesByTemplateName (Some (tHead # tRows)) (Some (vHead # vRows))
           (Some (cHead # cRows)) templateName =
     (let varList = parseList (cell tRow (findCol tHead col_variable_array));
          clauseIds = fst (collect_vars vRows (findCol vHead col_object_name)
                             (findCol vHead col_variable_type)
                             (findCol vHead col_associated_clause_array) varList ([], []));
          clauses = js_sort js_sub (uniqNums (map JNum clauseIds));
          clauseMap = new_Map (map (\<lambda>r. (js_Number (cell r (findCol_or_first cHead col_pc_id)), r))
                                 cRows);
          tags = collect_tags clauseMap (findCol cHead col_tags_array) clauses []
      in \<lparr> tagsArray = (if varList = [] then [] else js_sort js_sub (uniqNums (map JNum tags))),
           clausesArray = (if varList = [] then [] else clauses),
           debug = debug (getTagsAndClausesByTemplateName (Some (tHead # tRows))
                            (Some (vHead # vRows)) (Some (cHead # cRows)) templateName) \<rparr>)"
  by (simp add: getTagsAndClausesByTemplateName_def assms Let_def case_prod_unfold)

text \<open>
  \<^bold>\<open>C2, for three non-empty tables.\<close> When the Template, Variable and Clause tables each
  have a header row, the PC_IDs are unique, and \<open>tRow\<close> is the first Template row with the
  canonical name of the requested template, the resolver returns as \<open>clausesArray\<close> the
  strictly ascending array of the clause identifiers of the template, and as \<open>tagsArray\<close> the
  strictly ascending array of the tag identifiers of the resolved clauses that are rows of the
  Clause table. A strictly ascending array is determined by its set of elements; the model is
  a function of the three tables and the name alone, so equal inputs give equal outputs.
\<close>

theorem resolve_template:
  assumes "find (\<lambda>r. canon (cell r (findCol tHead col_name)) = canon templateName) tRows
             = Some tRow"
    and "distinct (map (\<lambda>r. js_Number (cell r (findCol_or_first cHead col_pc_id))) cRows)"
  shows "(let res = getTagsAndClausesByTemplateName (Some (tHead # tRows)) (Some (vHead # vRows))
                      (Some (cHead # cRows)) templateName
          in sorted_wrt num_less (clausesArray res)
             \<and> set (clausesArray res)
                 = spec_clause_ids vHead vRows (parseList (cell tRow (findCol tHead col_variable_array)))
             \<and> sorted_wrt num_less (tagsArray res)
             \<and> set (tagsArray res) = spec_tag_ids cHead cRows (clausesArray res))"
proof -
  let ?varList = "parseList (cell tRow (findCol tHead col_variable_array))"
  let ?iObj = "findCol vHead col_object_name"
  let ?iVType = "findCol vHead col_variable_type"
  let ?iAssoc = "findCol vHead col_associated_clause_array"
  let ?iPc = "findCol_or_first cHead col_pc_id"
  let ?iTags = "findCol cHead col_tags_array"
  let ?ids = "fst (collect_vars vRows ?iObj ?iVType ?iAssoc ?varList ([], []))"
  let ?clauses = "js_sort js_sub (uniqNums (map JNum ?ids))"
  let ?m = "new_Map (map (\<lambda>r. (js_Number (cell r ?iPc), r)) cRows)"
  let ?tags = "collect_tags ?m ?iTags ?clauses []"
  let ?res = "getTagsAndClausesByTemplateName (Some (tHead # tRows)) (Some (vHead # vRows))
                (Some (cHead # cRows)) templateName"
  have ids: "set ?ids = spec_clause_ids vHead vRows ?varList"
    by (auto simp: fst_collect_vars var_matches_def spec_clause_ids_def set_uniqNums)
  have fin_ids: "\<forall>x \<in> set ?ids. isFinite x"
    by (simp add: ids spec_clause_ids_def)
  note cl = sorted_uniq_numbers [OF fin_ids]
  have row: "?m pc = Some row \<longleftrightarrow> row \<in> set cRows \<and> js_Number (cell row ?iPc) = pc" for pc row
    using new_Map_Some_mem [of "\<lambda>r. js_Number (cell r ?iPc)" cRows pc row]
      new_Map_distinct [OF assms(2), of row]
    by auto
  have tags: "set ?tags = spec_tag_ids cHead cRows ?clauses"
    by (auto simp: set_collect_tags row spec_tag_ids_def set_uniqNums)
  have fin_tags: "\<forall>x \<in> set ?tags. isFinite x"
    by (simp add: tags spec_tag_ids_def)
  note tg = sorted_uniq_numbers [OF fin_tags]
  have empty_c: "spec_clause_ids vHead vRows [] = {}"
    by (simp add: spec_clause_ids_def)
  have empty_t: "spec_tag_ids cHead cRows [] = {}"
    by (simp add: spec_tag_ids_def)
  have c: "clausesArray ?res = (if ?varList = [] then [] else ?clauses)"
    and t: "tagsArray ?res = (if ?varList = [] then [] else js_sort js_sub (uniqNums (map JNum ?tags)))"
    by (subst resolve_found [OF assms(1)], simp add: Let_def)+
  show ?thesis
  proof (cases "?varList = []")
    case True
    then show ?thesis
      by (simp add: Let_def c t empty_c empty_t)
  next
    case False
    then show ?thesis
      using cl tg by (simp add: Let_def c t ids tags)
  qed
qed
lemma template_head_cols:
  "findCol template_head col_name = 0"
  "findCol template_head col_variable_array = 1"
  by (simp_all add: findCol_def template_head_def column_defs string_eval)

lemma variable_head_cols:
  "findCol variable_head col_object_name = 0"
  "findCol variable_head col_variable_type = 1"
  "findCol variable_head col_associated_clause_array = 2"
  by (simp_all add: findCol_def variable_head_def column_defs string_eval)

lemma example_template_row:
  "find (\<lambda>r. canon (cell r (findCol template_head col_name)) = canon (JStr ''lease''))
     template_rows = Some (template_rows ! 0)"
  by (simp add: template_head_cols template_rows_def cell_def canon_def string_eval)

lemma example_varList:
  "parseList (cell (template_rows ! 0) (findCol template_head col_variable_array))
     = [''Tenant'', ''Landlord'']"
  by (simp add: template_head_cols template_rows_def cell_def parseList_def string_eval)

lemma example_clauseIds:
  "fst (collect_vars variable_rows 0 1 2 [''Tenant'', ''Landlord''] ([], []))
     = [Fin 1, Fin 2, Fin 2, Fin 3]"
  by (simp add: fst_collect_vars var_matches_def variable_rows_def cell_def canon_def
      parseList_def uniqNums_def new_Set_def set_add_def number_eval string_eval)

lemma example_resolved:
  "clausesArray (getTagsAndClausesByTemplateName (Some (template_head # template_rows))
      (Some (variable_head # variable_rows)) (Some (clause_head # clause_rows)) (JStr ''lease''))
     = [Fin 1, Fin 2, Fin 3]"
  "tagsArray (getTagsAndClausesByTemplateName (Some (template_head # template_rows))
      (Some (variable_head # variable_rows)) (Some (clause_head # clause_rows)) (JStr ''lease''))
     = [Fin 10, Fin 20]"
proof -
  have c: "js_sort js_sub (uniqNums (map JNum [Fin 1, Fin 2, Fin 2, Fin 3]))
             = [Fin 1, Fin 2, Fin 3]"
    by (simp add: uniqNums_def new_Set_def set_add_def js_sort_def)
  have d: "distinct (map (\<lambda>r. js_Number (cell r 0)) clause_rows)"
    by (simp add: clause_rows_pc)
  have pc: "js_Number (cell (clause_rows ! 0) 0) = Fin 1"
    "js_Number (cell (clause_rows ! 1) 0) = Fin 2"
    "js_Number (cell (clause_rows ! 2) 0) = Fin 3"
    using arg_cong [OF clause_rows_pc, of "\<lambda>xs. xs ! 0"]
      arg_cong [OF clause_rows_pc, of "\<lambda>xs. xs ! 1"]
      arg_cong [OF clause_rows_pc, of "\<lambda>xs. xs ! 2"]
    by (simp_all add: clause_rows_def)
  have m: "new_Map (map (\<lambda>r. (js_Number (cell r 0), r)) clause_rows) (Fin 1)
             = Some (clause_rows ! 0)"
    "new_Map (map (\<lambda>r. (js_Number (cell r 0), r)) clause_rows) (Fin 2)
             = Some (clause_rows ! 1)"
    "new_Map (map (\<lambda>r. (js_Number (cell r 0), r)) clause_rows) (Fin 3)
             = Some (clause_rows ! 2)"
    using new_Map_distinct [OF d, of "clause_rows ! 0"] new_Map_distinct [OF d, of "clause_rows ! 1"]
      new_Map_distinct [OF d, of "clause_rows ! 2"]
    by (simp_all only: pc) (simp_all add: clause_rows_def)
  have t: "uniqNums (map JStr (parseList (cell (clause_rows ! 0) 3))) = [Fin 10]"
    "uniqNums (map JStr (parseList (cell (clause_rows ! 1) 3))) = [Fin 20]"
    "uniqNums (map JStr (parseList (cell (clause_rows ! 2) 3))) = []"
    using arg_cong [OF clause_rows_tags, of "\<lambda>xs. xs ! 0"]
      arg_cong [OF clause_rows_tags, of "\<lambda>xs. xs ! 1"]
      arg_cong [OF clause_rows_tags, of "\<lambda>xs. xs ! 2"]
    by (simp_all add: clause_rows_def)
  have g: "js_sort js_sub (uniqNums [JNum (Fin 10), JNum (Fin 20)]) = [Fin 10, Fin 20]"
    by (simp add: uniqNums_def new_Set_def set_add_def js_sort_def)
  note r = resolve_found [OF example_template_row, of variable_head variable_rows clause_head
      clause_rows, unfolded Let_def example_varList variable_head_cols clause_head_cols
      example_clauseIds c]
  show "clausesArray (getTagsAndClausesByTemplateName (Some (template_head # template_rows))
      (Some (variable_head # variable_rows)) (Some (clause_head # clause_rows)) (JStr ''lease''))
     = [Fin 1, Fin 2, Fin 3]"
    by (subst r) simp
  show "tagsArray (getTagsAndClausesByTemplateName (Some (template_head # template_rows))
      (Some (variable_head # variable_rows)) (Some (clause_head # clause_rows)) (JStr ''lease''))
     = [Fin 10, Fin 20]"
    by (subst r) (use m t g in simp)
qed

theorem resolve_template_witness:
  "find (\<lambda>r. canon (cell r (findCol template_head col_name)) = canon (JStr ''lease''))
     template_rows = Some (template_rows ! 0)
   \<and> distinct (map (\<lambda>r. js_Number (cell r (findCol_or_first clause_head col_pc_id))) clause_rows)
   \<and> clausesArray (getTagsAndClausesByTemplateName (Some (template_head # template_rows))
        (Some (variable_head # variable_rows)) (Some (clause_head # clause_rows)) (JStr ''lease''))
       = [Fin 1, Fin 2, Fin 3]
   \<and> spec_clause_ids variable_head variable_rows [''Tenant'', ''Landlord'']
       = {Fin 1, Fin 2, Fin 3}
   \<and> tagsArray (getTagsAndClausesByTemplateName (Some (template_head # template_rows))
        (Some (variable_head # variable_rows)) (Some (clause_head # clause_rows)) (JStr ''lease''))
       = [Fin 10, Fin 20]
   \<and> spec_tag_ids clause_head clause_rows [Fin 1, Fin 2, Fin 3] = {Fin 10, Fin 20}"
proof -
  have d: "distinct (map (\<lambda>r. js_Number (cell r (findCol_or_first clause_head col_pc_id)))
             clause_rows)"
    by (simp add: clause_head_cols clause_rows_pc)
  note th = resolve_template [OF example_template_row d, of variable_head variable_rows,
      unfolded Let_def example_resolved example_varList]
  have c: "spec_clause_ids variable_head variable_rows [''Tenant'', ''Landlord'']
             = {Fin 1, Fin 2, Fin 3}"
    using th by simp
  have t: "spec_tag_ids clause_head clause_rows [Fin 1, Fin 2, Fin 3] = {Fin 10, Fin 20}"
    using th by simp
  show ?thesis
    using example_template_row d example_resolved c t by (intro conjI)
qed

text \<open>
  \<^bold>\<open>C2, as the specification words it,\<close> fails when the Clause table is empty: the template
  of Scenario A is present and its variables carry the clause identifiers 1, 2 and 3, yet the
  resolver returns no clause.
\<close>

theorem resolve_template_counterexample:
  "template_present (Some (template_head # template_rows)) (JStr ''Lease'')
   \<and> Fin 1 \<in> spec_clause_ids variable_head variable_rows [''Tenant'', ''Landlord'']
   \<and> clausesArray (getTagsAndClausesByTemplateName (Some (template_head # template_rows))
        (Some (variable_head # variable_rows)) (Some []) (JStr ''Lease'')) = []"
proof -
  have a: "template_present (Some (template_head # template_rows)) (JStr ''Lease'')"
    by (simp add: template_present_def template_head_cols template_rows_def cell_def canon_def
        string_eval)
  have n: "string_to_number ''1'' = Fin 1"
    by (simp add: number_eval string_eval)
  have p: "parseList (cell (variable_rows ! 0) 2) = [''1'', ''2'']"
    by (simp add: variable_rows_def cell_def parseList_def string_eval)
  have k: "canon (cell (variable_rows ! 0) 0) = canon (JStr ''Tenant'')"
    "canon (cell (variable_rows ! 0) 1) = ''clause''"
    by (simp_all add: variable_rows_def cell_def canon_def string_eval)
  have b: "Fin 1 \<in> spec_clause_ids variable_head variable_rows [''Tenant'', ''Landlord'']"
    unfolding spec_clause_ids_def variable_head_cols
    using k p n by (auto simp: variable_rows_def intro!: bexI [of _ "variable_rows ! 0"])
  have c: "clausesArray (getTagsAndClausesByTemplateName (Some (template_head # template_rows))
        (Some (variable_head # variable_rows)) (Some []) (JStr ''Lease'')) = []"
    by (simp add: getTagsAndClausesByTemplateName_def)
  show ?thesis
    using a b c by (intro conjI)
qed

text \<open>When one of the three tables is absent or empty, the resolver returns empty arrays and
  the one diagnostic of the guard, whatever the template name.\<close>

lemma empty_tables_guard:
  assumes "templatesTable = None \<or> templatesTable = Some []
           \<or> variablesTable = None \<or> variablesTable = Some []
           \<or> clausesTable = None \<or> clausesTable = Some []"
  shows "getTagsAndClausesByTemplateName templatesTable variablesTable clausesTable templateName
           = \<lparr> tagsArray = [], clausesArray = [], debug = [''One or more tables are empty.''] \<rparr>"
  using assms
  by (auto simp: getTagsAndClausesByTemplateName_def split: option.splits list.splits)

end
